theory Spec2Isabelle
  imports Main "HOL-Library.Multiset"
begin

section \<open>Errors\<close>

text \<open>
  Go error values. \<open>ErrRecordNotFound\<close> is the sentinel \<^verbatim>\<open>gorm.ErrRecordNotFound\<close>;
  \<open>ErrDriver\<close> is any other error reported by the database driver; \<open>ErrReader\<close> is a
  failure of the \<^verbatim>\<open>crypto/rand\<close> reader; \<open>ErrorsNew m\<close> is \<^verbatim>\<open>errors.New(m)\<close>;
  \<open>Errorf f args e\<close> is \<^verbatim>\<open>fmt.Errorf(f, args..., e)\<close>, where the format \<open>f\<close> ends in
  \<^verbatim>\<open>%w\<close> and \<open>args\<close> are the values of its \<^verbatim>\<open>%s\<close> and \<^verbatim>\<open>%d\<close> verbs. The last five
  constructors are the types of package \<^verbatim>\<open>customerrors\<close>. Message texts are written
  without accents.
\<close>

datatype fmt_arg = Arg_s string | Arg_d nat

datatype error =
    ErrRecordNotFound
  | ErrDriver string
  | ErrReader string
  | ErrorsNew string
  | Errorf string "fmt_arg list" error
  | ErrCodeCollision string int
  | ErrLinkNotFound string
  | ErrInvalidURL string string
  | ErrMaxRetriesExceeded int string
  | ErrDatabaseOperation string string error

text \<open>\<^verbatim>\<open>errors.Is\<close>: compare, then follow the \<^verbatim>\<open>Unwrap\<close> chain.\<close>

fun errors_Is :: "error \<Rightarrow> error \<Rightarrow> bool" where
  "errors_Is (Errorf m args e) t = (Errorf m args e = t \<or> errors_Is e t)"
| "errors_Is (ErrDatabaseOperation operation entity e) t =
     (ErrDatabaseOperation operation entity e = t \<or> errors_Is e t)"
| "errors_Is e t = (e = t)"

text \<open>The error SQLite reports when the unique index on \<^verbatim>\<open>links.short_code\<close> rejects a row.\<close>

definition ErrUniqueShortCode :: error where
  "ErrUniqueShortCode = ErrDriver ''UNIQUE constraint failed: links.short_code''"

definition ErrUniqueLinkID :: error where
  "ErrUniqueLinkID = ErrDriver ''UNIQUE constraint failed: links.id''"

definition ErrUniqueClickID :: error where
  "ErrUniqueClickID = ErrDriver ''UNIQUE constraint failed: clicks.id''"

section \<open>Models\<close>

text \<open>
  \<^verbatim>\<open>models.Link\<close>, \<^verbatim>\<open>models.Click\<close> and \<^verbatim>\<open>api.ClickEvent\<close>. Identifiers (\<^verbatim>\<open>uint\<close>) and
  instants (\<^verbatim>\<open>time.Time\<close>) are natural numbers. The association field \<^verbatim>\<open>Click.Link\<close> is
  always left at its zero value by the code and is not a column; it is omitted.
\<close>

record Link =
  ID :: nat
  ShortCode :: string
  LongURL :: string
  CreatedAt :: nat

record Click =
  Click_ID :: nat
  LinkID :: nat
  Timestamp :: nat
  UserAgent :: string
  IPAddress :: string

record ClickEvent =
  ev_LinkID :: nat
  ev_ShortCode :: string
  ev_Timestamp :: nat
  ev_UserAgent :: string
  IP :: string

section \<open>The process and its environment\<close>

text \<open>
  What the outside world does while one database statement of this process is executed:
  nothing, make the statement fail with a driver error, or let another client commit a link
  row (short code, long URL) just before it.
\<close>

datatype env_event = Quiet | Fault error | Concurrent string string

text \<open>The statements the database receives, as the comments of the repositories give them.\<close>

datatype stmt =
    SelectLinkByShortCode string
  | InsertLink Link
  | InsertClick Click
  | CountClicks nat

text \<open>
  One entry per \<^verbatim>\<open>log.Printf\<close> call site, with its arguments:
  \<^item> \<open>LogShortCodeExists\<close>: \<^verbatim>\<open>Short code '%s' already exists, retrying generation (%d/%d)...\<close>
  \<^item> \<open>LogChannelFull\<close>: \<^verbatim>\<open>Warning: ClickEventsChannel is full, dropping click event for %s.\<close>
  \<^item> \<open>LogRetrieveError\<close>: \<^verbatim>\<open>Error retrieving link for %s: %v\<close>
  \<^item> \<open>LogWorkerStarted\<close>: \<^verbatim>\<open>clickWorker %d: started\<close>
  \<^item> \<open>LogWorkerStopped\<close>: \<^verbatim>\<open>clickWorker %d: stopped\<close>
  \<^item> \<open>LogPersistFailed\<close>: \<^verbatim>\<open>clickWorker %d: failed to persist click for link %d: %v\<close>
  \<^item> \<open>LogPersisted\<close>: \<^verbatim>\<open>clickWorker %d: persisted click for link %d\<close>
\<close>

datatype log_entry =
    LogShortCodeExists string nat nat
  | LogChannelFull string
  | LogRetrieveError string error
  | LogWorkerStarted nat
  | LogWorkerStopped nat
  | LogPersistFailed nat nat error
  | LogPersisted nat nat

text \<open>
  A buffered channel of click events: its buffer (oldest first), its capacity and whether it
  has been closed. A worker goroutine is at one of four places: spawned and not yet run,
  waiting at its \<^verbatim>\<open>select\<close>, between the receive and the call of \<^verbatim>\<open>CreateClick\<close> (holding
  the event), or returned.
\<close>

record chan =
  ch_buf :: "ClickEvent list"
  ch_cap :: nat
  ch_closed :: bool

datatype pc = Spawned | AtSelect | Persisting ClickEvent | Returned

text \<open>
  The state every function threads: the two tables, the schedule of the environment (one
  event per statement; an exhausted schedule is quiet), the statements received so far, the
  \<^verbatim>\<open>crypto/rand\<close> reader (its successive draws and the number consumed), the log, the
  clock, the channel \<^verbatim>\<open>api.ClickEventsChannel\<close>, whether the context has been cancelled,
  and the worker goroutines, each with the \<^verbatim>\<open>id\<close> it was started with.
\<close>

record world =
  links :: "Link list"
  clicks :: "Click list"
  env :: "env_event list"
  sql_log :: "stmt list"
  rand_reader :: "nat \<Rightarrow> error + nat"
  rand_pos :: nat
  logs :: "log_entry list"
  clock :: nat
  ClickEventsChannel :: chan
  ctx_done :: bool
  workers :: "(nat \<times> pc) list"

definition log_Printf :: "world \<Rightarrow> log_entry \<Rightarrow> world" where
  "log_Printf w e = w\<lparr>logs := logs w @ [e]\<rparr>"

definition time_Now :: "world \<Rightarrow> nat" where
  "time_Now w = clock w"

section \<open>The database\<close>

text \<open>
  The tables behave as the struct tags declare them: \<^verbatim>\<open>links.id\<close> and \<^verbatim>\<open>clicks.id\<close> are
  auto-incremented primary keys, \<^verbatim>\<open>links.short_code\<close> is unique.
\<close>

definition next_link_id :: "Link list \<Rightarrow> nat" where
  "next_link_id ls = Suc (fold max (map ID ls) 0)"

definition next_click_id :: "Click list \<Rightarrow> nat" where
  "next_click_id cs = Suc (fold max (map Click_ID cs) 0)"

text \<open>Whether the environment makes the next statement fail.\<close>

definition statement_fails :: "world \<Rightarrow> bool" where
  "statement_fails w = (case env w of Fault err # es \<Rightarrow> True | _ \<Rightarrow> False)"

definition short_code_taken :: "Link list \<Rightarrow> string \<Rightarrow> bool" where
  "short_code_taken ls code = (find (\<lambda>l. ShortCode l = code) ls \<noteq> None)"

text \<open>The commit of another client: it goes through the same unique index.\<close>

definition concurrent_insert :: "world \<Rightarrow> string \<Rightarrow> string \<Rightarrow> world" where
  "concurrent_insert w code url =
     (if short_code_taken (links w) code then w
      else w\<lparr>links := links w @
             [\<lparr>ID = next_link_id (links w), ShortCode = code, LongURL = url,
               CreatedAt = clock w\<rparr>]\<rparr>)"

text \<open>
  Every statement first records itself and consumes one event of the environment; the
  result is the driver error, if the environment makes the statement fail.
\<close>

definition begin_statement :: "world \<Rightarrow> stmt \<Rightarrow> error option \<times> world" where
  "begin_statement w q =
     (let w0 = w\<lparr>sql_log := sql_log w @ [q]\<rparr> in
      case env w0 of
        [] \<Rightarrow> (None, w0)
      | e # es \<Rightarrow>
          (case e of
             Quiet \<Rightarrow> (None, w0\<lparr>env := es\<rparr>)
           | Fault err \<Rightarrow> (Some err, w0\<lparr>env := es\<rparr>)
           | Concurrent code url \<Rightarrow> (None, concurrent_insert (w0\<lparr>env := es\<rparr>) code url)))"

text \<open>
  \<^verbatim>\<open>db.Where("short_code = ?", shortCode).First(&link)\<close>: the row with that short code,
  of which the unique index allows one at most, or \<^verbatim>\<open>gorm.ErrRecordNotFound\<close>.
\<close>

definition db_First_link :: "world \<Rightarrow> string \<Rightarrow> (error + Link) \<times> world" where
  "db_First_link w shortCode =
     (case begin_statement w (SelectLinkByShortCode shortCode) of
        (Some err, w1) \<Rightarrow> (Inl err, w1)
      | (None, w1) \<Rightarrow>
          (case find (\<lambda>l. ShortCode l = shortCode) (links w1) of
             None \<Rightarrow> (Inl ErrRecordNotFound, w1)
           | Some l \<Rightarrow> (Inr l, w1)))"

text \<open>\<^verbatim>\<open>db.Create(link)\<close>: a zero ID is replaced by the next auto-incremented one.\<close>

definition db_Create_link :: "world \<Rightarrow> Link \<Rightarrow> (error + Link) \<times> world" where
  "db_Create_link w link =
     (case begin_statement w (InsertLink link) of
        (Some err, w1) \<Rightarrow> (Inl err, w1)
      | (None, w1) \<Rightarrow>
          (let row = (if ID link = 0 then link\<lparr>ID := next_link_id (links w1)\<rparr> else link) in
           if find (\<lambda>l. ID l = ID row) (links w1) \<noteq> None then (Inl ErrUniqueLinkID, w1)
           else if short_code_taken (links w1) (ShortCode row) then (Inl ErrUniqueShortCode, w1)
           else (Inr row, w1\<lparr>links := links w1 @ [row]\<rparr>)))"

text \<open>\<^verbatim>\<open>db.Create(click)\<close>\<close>

definition db_Create_click :: "world \<Rightarrow> Click \<Rightarrow> (error + Click) \<times> world" where
  "db_Create_click w click =
     (case begin_statement w (InsertClick click) of
        (Some err, w1) \<Rightarrow> (Inl err, w1)
      | (None, w1) \<Rightarrow>
          (let row = (if Click_ID click = 0 then click\<lparr>Click_ID := next_click_id (clicks w1)\<rparr>
                      else click) in
           if find (\<lambda>c. Click_ID c = Click_ID row) (clicks w1) \<noteq> None
           then (Inl ErrUniqueClickID, w1)
           else (Inr row, w1\<lparr>clicks := clicks w1 @ [row]\<rparr>)))"

text \<open>\<^verbatim>\<open>db.Model(&models.Click{}).Where("link_id = ?", linkID).Count(&count)\<close>\<close>

definition db_Count_clicks :: "world \<Rightarrow> nat \<Rightarrow> (error + int) \<times> world" where
  "db_Count_clicks w linkID =
     (case begin_statement w (CountClicks linkID) of
        (Some err, w1) \<Rightarrow> (Inl err, w1)
      | (None, w1) \<Rightarrow> (Inr (int (length (filter (\<lambda>c. LinkID c = linkID) (clicks w1)))), w1))"

section \<open>Repositories\<close>

definition GormLinkRepository_CreateLink :: "world \<Rightarrow> Link \<Rightarrow> (error + Link) \<times> world" where
  "GormLinkRepository_CreateLink w link =
     (case db_Create_link w link of
        (Inl err, w1) \<Rightarrow> (Inl (Errorf ''erreur lors de la creation du lien : %w'' [] err), w1)
      | (Inr row, w1) \<Rightarrow> (Inr row, w1))"

definition GormLinkRepository_GetLinkByShortCode ::
  "world \<Rightarrow> string \<Rightarrow> (error + Link) \<times> world" where
  "GormLinkRepository_GetLinkByShortCode w shortCode =
     (case db_First_link w shortCode of
        (Inl err, w1) \<Rightarrow>
          (Inl (Errorf ''erreur lors de la recuperation du lien par shortCode '%s' : %w''
                  [Arg_s shortCode] err), w1)
      | (Inr l, w1) \<Rightarrow> (Inr l, w1))"

definition GormClickRepository_CreateClick :: "world \<Rightarrow> Click \<Rightarrow> (error + Click) \<times> world" where
  "GormClickRepository_CreateClick w click =
     (case db_Create_click w click of
        (Inl err, w1) \<Rightarrow> (Inl (Errorf ''erreur lors de la creation du clic : %w'' [] err), w1)
      | (Inr row, w1) \<Rightarrow> (Inr row, w1))"

definition GormClickRepository_CountClicksByLinkID ::
  "world \<Rightarrow> nat \<Rightarrow> (error + int) \<times> world" where
  "GormClickRepository_CountClicksByLinkID w linkID =
     (case db_Count_clicks w linkID of
        (Inl err, w1) \<Rightarrow> (Inl (Errorf ''erreur lors du comptage des clics pour LinkID %d : %w''
                  [Arg_d linkID] err), w1)
      | (Inr n, w1) \<Rightarrow> (Inr n, w1))"

section \<open>LinkService\<close>

definition charset :: string where
  "charset = ''abcdefghijklmnopqrstuvwxyzABCDEFGHIJKLMNOPQRSTUVWXYZ0123456789''"

definition maxRetries :: nat where
  "maxRetries = 5"

text \<open>
  \<^verbatim>\<open>rand.Int(rand.Reader, max)\<close>: the next draw of the reader, brought into \<open>[0, max)\<close>, or
  the reader's error.
\<close>

definition rand_Int :: "world \<Rightarrow> nat \<Rightarrow> (error + nat) \<times> world" where
  "rand_Int w m =
     (case rand_reader w (rand_pos w) of
        Inl err \<Rightarrow> (Inl err, w\<lparr>rand_pos := Suc (rand_pos w)\<rparr>)
      | Inr n \<Rightarrow> (Inr (n mod m), w\<lparr>rand_pos := Suc (rand_pos w)\<rparr>))"

text \<open>
  The loop of \<^verbatim>\<open>GenerateShortCode\<close>, from index \<open>i\<close>, writing into the byte slice
  \<open>result\<close>. The length is a natural number: the one call of the function passes 6.
\<close>

function GenerateShortCode_loop ::
  "world \<Rightarrow> nat \<Rightarrow> nat \<Rightarrow> string \<Rightarrow> (error + string) \<times> world" where
  "GenerateShortCode_loop w len i result =
     (if i < len then
        (case rand_Int w (length charset) of
           (Inl err, w1) \<Rightarrow>
             (Inl (Errorf ''erreur lors de la generation du code aleatoire: %w'' [] err), w1)
         | (Inr randomIndex, w1) \<Rightarrow>
             GenerateShortCode_loop w1 len (Suc i) (result[i := charset ! randomIndex]))
      else (Inr result, w))"
  by pat_completeness auto
termination
  by (relation "measure (\<lambda>(w, len, i, result). len - i)") auto

declare GenerateShortCode_loop.simps [simp del]

definition GenerateShortCode :: "world \<Rightarrow> nat \<Rightarrow> (error + string) \<times> world" where
  "GenerateShortCode w len =
     GenerateShortCode_loop w len 0 (replicate len (CHR 0x00))"

text \<open>
  The retry loop of \<^verbatim>\<open>CreateLink\<close>, from attempt \<open>i\<close>. It yields the value of
  \<^verbatim>\<open>shortCode\<close> after the loop (empty when no attempt found a free code), or the error
  on which the function returns from inside the loop.
\<close>

function CreateLink_loop :: "world \<Rightarrow> nat \<Rightarrow> (error + string) \<times> world" where
  "CreateLink_loop w i =
     (if i < maxRetries then
        (case GenerateShortCode w 6 of
           (Inl err, w1) \<Rightarrow>
             (Inl (Errorf ''erreur lors de la generation du code court: %w'' [] err), w1)
         | (Inr code, w1) \<Rightarrow>
             (case GormLinkRepository_GetLinkByShortCode w1 code of
                (Inl err, w2) \<Rightarrow>
                  if errors_Is err ErrRecordNotFound then (Inr code, w2)
                  else (Inl (Errorf ''database error checking short code uniqueness: %w'' [] err), w2)
              | (Inr l, w2) \<Rightarrow>
                  CreateLink_loop
                    (log_Printf w2 (LogShortCodeExists code (i + 1) maxRetries)) (i + 1)))
      else (Inr '''', w))"
  by pat_completeness auto
termination
  by (relation "measure (\<lambda>(w, i). maxRetries - i)") auto

declare CreateLink_loop.simps [simp del]

text \<open>
  What \<^verbatim>\<open>CreateLink\<close> does once the loop is left: with the error if the loop returned
  from the function, with the value of \<^verbatim>\<open>shortCode\<close> otherwise.
\<close>

definition CreateLink_after_loop ::
  "(error + string) \<times> world \<Rightarrow> string \<Rightarrow> (error + Link) \<times> world" where
  "CreateLink_after_loop r longURL =
     (case r of
        (Inl err, w1) \<Rightarrow> (Inl err, w1)
      | (Inr shortCode, w1) \<Rightarrow>
          if shortCode = '''' then
            (Inl (ErrorsNew
               ''impossible de generer un code court unique apres plusieurs tentatives''), w1)
          else
            (case GormLinkRepository_CreateLink w1
                    \<lparr>ID = 0, ShortCode = shortCode, LongURL = longURL,
                     CreatedAt = time_Now w1\<rparr> of
               (Inl err, w2) \<Rightarrow> (Inl (Errorf ''erreur lors de la creation du lien: %w'' [] err), w2)
             | (Inr link, w2) \<Rightarrow> (Inr link, w2)))"

text \<open>
  The execution of \<^verbatim>\<open>CreateLink\<close> from the head of the loop at attempt \<open>i\<close>; the
  function itself starts at attempt \<open>0\<close>.
\<close>

definition CreateLink_from :: "world \<Rightarrow> nat \<Rightarrow> string \<Rightarrow> (error + Link) \<times> world" where
  "CreateLink_from w i longURL = CreateLink_after_loop (CreateLink_loop w i) longURL"

definition LinkService_CreateLink :: "world \<Rightarrow> string \<Rightarrow> (error + Link) \<times> world" where
  "LinkService_CreateLink w longURL = CreateLink_from w 0 longURL"

definition LinkService_GetLinkByShortCode ::
  "world \<Rightarrow> string \<Rightarrow> (error + Link) \<times> world" where
  "LinkService_GetLinkByShortCode w shortCode =
     (case GormLinkRepository_GetLinkByShortCode w shortCode of
        (Inl err, w1) \<Rightarrow> (Inl (Errorf ''erreur lors de la recuperation du lien: %w'' [] err), w1)
      | (Inr link, w1) \<Rightarrow> (Inr link, w1))"

text \<open>
  \<^verbatim>\<open>errors.As\<close> with a target of type \<^verbatim>\<open>*customerrors.ErrMaxRetriesExceeded\<close>: the first
  error of that type on the \<^verbatim>\<open>Unwrap\<close> chain, with its fields.
\<close>

fun errors_As_ErrMaxRetriesExceeded :: "error \<Rightarrow> (int \<times> string) option" where
  "errors_As_ErrMaxRetriesExceeded (ErrMaxRetriesExceeded n operation) = Some (n, operation)"
| "errors_As_ErrMaxRetriesExceeded (Errorf m args e) = errors_As_ErrMaxRetriesExceeded e"
| "errors_As_ErrMaxRetriesExceeded (ErrDatabaseOperation operation entity e) =
     errors_As_ErrMaxRetriesExceeded e"
| "errors_As_ErrMaxRetriesExceeded e = None"

section \<open>The click queue and the redirect handler\<close>

text \<open>\<^verbatim>\<open>make(chan api.ClickEvent, n)\<close>\<close>

definition make_chan :: "nat \<Rightarrow> chan" where
  "make_chan n = \<lparr>ch_buf = [], ch_cap = n, ch_closed = False\<rparr>"

text \<open>
  The \<^verbatim>\<open>select\<close> of \<^verbatim>\<open>RedirectHandler\<close>, a send with a \<^verbatim>\<open>default\<close> case. It has three
  outcomes: the send case runs, the default case runs and logs the warning, or the channel
  is closed and the send panics. A send can proceed when the buffer has room; no receiver is
  taken to be parked on the channel.
\<close>

datatype send_result = Sent | Dropped | PanicSendOnClosed

definition tryEnqueue :: "world \<Rightarrow> ClickEvent \<Rightarrow> send_result \<times> world" where
  "tryEnqueue w clickEvent =
     (let c = ClickEventsChannel w in
      if ch_closed c then (PanicSendOnClosed, w)
      else if length (ch_buf c) < ch_cap c then
        (Sent, w\<lparr>ClickEventsChannel := c\<lparr>ch_buf := ch_buf c @ [clickEvent]\<rparr>\<rparr>)
      else
        (Dropped, log_Printf w (LogChannelFull (ev_ShortCode clickEvent))))"

text \<open>A sequence of such sends, one after the other, with the outcome of each.\<close>

fun tryEnqueue_all :: "world \<Rightarrow> ClickEvent list \<Rightarrow> send_result list \<times> world" where
  "tryEnqueue_all w [] = ([], w)"
| "tryEnqueue_all w (e # es) =
     (case tryEnqueue w e of
        (r, w1) \<Rightarrow> (case tryEnqueue_all w1 es of (rs, w2) \<Rightarrow> (r # rs, w2)))"

text \<open>What the handler reads of the request, and what it answers.\<close>

record Request =
  param_shortCode :: string
  header_User_Agent :: string
  ClientIP :: string

datatype Response =
    JSON nat "(string \<times> string) list"
  | Redirect nat string
  | HandlerPanic string

definition RedirectHandler :: "world \<Rightarrow> Request \<Rightarrow> Response \<times> world" where
  "RedirectHandler w c =
     (let shortCode = param_shortCode c in
      case LinkService_GetLinkByShortCode w shortCode of
        (Inl err, w1) \<Rightarrow>
          if errors_Is err ErrRecordNotFound then
            (JSON 404 [(''error'', ''link not found'')], w1)
          else
            (JSON 500 [(''error'', ''internal server error'')],
             log_Printf w1 (LogRetrieveError shortCode err))
      | (Inr link, w1) \<Rightarrow>
          (let clickEvent = \<lparr>ev_LinkID = ID link, ev_ShortCode = shortCode,
                              ev_Timestamp = time_Now w1,
                              ev_UserAgent = header_User_Agent c, IP = ClientIP c\<rparr> in
           case tryEnqueue w1 clickEvent of
             (PanicSendOnClosed, w2) \<Rightarrow> (HandlerPanic ''send on closed channel'', w2)
           | (r, w2) \<Rightarrow> (Redirect 302 (LongURL link), w2)))"

section \<open>Click workers\<close>

text \<open>The \<^verbatim>\<open>models.Click\<close> a worker builds from an event.\<close>

definition click_of_event :: "ClickEvent \<Rightarrow> Click" where
  "click_of_event ev =
     \<lparr>Click_ID = 0, LinkID = ev_LinkID ev, Timestamp = ev_Timestamp ev,
      UserAgent = ev_UserAgent ev, IPAddress = IP ev\<rparr>"

text \<open>
  What one scheduling of a worker goroutine does: nothing (no such goroutine, or it has
  returned), stay blocked at the \<^verbatim>\<open>select\<close>, start, take the \<^verbatim>\<open>ctx.Done()\<close> case, find
  the channel closed and drained, receive an event, or call \<^verbatim>\<open>CreateClick\<close> (with the
  error it got, if any).
\<close>

datatype action =
    NoStep
  | Blocked
  | Started
  | Cancelled
  | ChannelClosed
  | Received ClickEvent
  | CreateClickCalled Click "error option"

definition set_pc :: "world \<Rightarrow> nat \<Rightarrow> pc \<Rightarrow> world" where
  "set_pc w g p = w\<lparr>workers := (workers w)[g := (fst (workers w ! g), p)]\<rparr>"

text \<open>
  One step of goroutine \<open>g\<close> running \<^verbatim>\<open>clickWorker\<close>. When both cases of the \<^verbatim>\<open>select\<close>
  are ready Go picks either; \<open>pick_done\<close> says whether it picks \<^verbatim>\<open>ctx.Done()\<close>. The
  deferred log line runs on both returns. The receive and the call of \<^verbatim>\<open>CreateClick\<close> are
  two steps, so that other goroutines can move in between; the pause of 5 ms after the call
  changes no state.
\<close>

definition clickWorker_step :: "world \<Rightarrow> nat \<Rightarrow> bool \<Rightarrow> action \<times> world" where
  "clickWorker_step w g pick_done =
     (if length (workers w) \<le> g then (NoStep, w)
      else
        (case workers w ! g of
           (wid, Returned) \<Rightarrow> (NoStep, w)
         | (wid, Spawned) \<Rightarrow> (Started, set_pc (log_Printf w (LogWorkerStarted wid)) g AtSelect)
         | (wid, AtSelect) \<Rightarrow>
             (let c = ClickEventsChannel w;
                  done_ready = ctx_done w;
                  recv_ready = (ch_buf c \<noteq> [] \<or> ch_closed c) in
              if \<not> done_ready \<and> \<not> recv_ready then (Blocked, w)
              else if done_ready \<and> (pick_done \<or> \<not> recv_ready) then
                (Cancelled, set_pc (log_Printf w (LogWorkerStopped wid)) g Returned)
              else
                (case ch_buf c of
                   [] \<Rightarrow> (ChannelClosed, set_pc (log_Printf w (LogWorkerStopped wid)) g Returned)
                 | ev # rest \<Rightarrow>
                     (Received ev,
                      set_pc (w\<lparr>ClickEventsChannel := c\<lparr>ch_buf := rest\<rparr>\<rparr>) g (Persisting ev))))
         | (wid, Persisting ev) \<Rightarrow>
             (let click = click_of_event ev in
              case GormClickRepository_CreateClick w click of
                (Inl err, w1) \<Rightarrow>
                  (CreateClickCalled click (Some err),
                   set_pc (log_Printf w1 (LogPersistFailed wid (ev_LinkID ev) err)) g AtSelect)
              | (Inr row, w1) \<Rightarrow>
                  (CreateClickCalled click None,
                   set_pc (log_Printf w1 (LogPersisted wid (ev_LinkID ev))) g AtSelect))))"

text \<open>\<^verbatim>\<open>StartClickWorkers\<close>: \<open>n\<close> goroutines with ids \<open>0\<close> to \<open>n - 1\<close>; none for \<open>n \<le> 0\<close>.\<close>

definition StartClickWorkers :: "world \<Rightarrow> int \<Rightarrow> world" where
  "StartClickWorkers w n = w\<lparr>workers := workers w @ map (\<lambda>i. (i, Spawned)) [0..<nat n]\<rparr>"

text \<open>\<^verbatim>\<open>cancel()\<close> of the context handed to the workers.\<close>

definition cancel :: "world \<Rightarrow> world" where
  "cancel w = w\<lparr>ctx_done := True\<rparr>"

text \<open>
  A run of the pool under a schedule: each entry names the goroutine that moves next and
  the choice of its \<^verbatim>\<open>select\<close>. The run yields what each step did.
\<close>

fun run :: "world \<Rightarrow> (nat \<times> bool) list \<Rightarrow> (nat \<times> action) list \<times> world" where
  "run w [] = ([], w)"
| "run w ((g, pick_done) # sched) =
     (case clickWorker_step w g pick_done of
        (a, w1) \<Rightarrow> (case run w1 sched of (tr, w2) \<Rightarrow> ((g, a) # tr, w2)))"

text \<open>
  The events that are in flight: held by a worker between its receive and its call of
  \<^verbatim>\<open>CreateClick\<close>. A pool is quiescent when the channel is drained and nothing is in flight.
\<close>

fun holding :: "pc \<Rightarrow> ClickEvent list" where
  "holding (Persisting ev) = [ev]"
| "holding p = []"

definition held :: "(nat \<times> pc) list \<Rightarrow> ClickEvent list" where
  "held ws = concat (map (\<lambda>x. holding (snd x)) ws)"

definition quiescent :: "world \<Rightarrow> bool" where
  "quiescent w = (ch_buf (ClickEventsChannel w) = [] \<and> held (workers w) = [])"

text \<open>
  The two states of a worker: it is stopped once \<^verbatim>\<open>clickWorker\<close> has returned, and
  running before. A goroutine that does not exist counts as stopped.
\<close>

datatype worker_state = Running | Stopped

definition status_of :: "world \<Rightarrow> nat \<Rightarrow> worker_state" where
  "status_of w g =
     (if length (workers w) \<le> g then Stopped
      else (case snd (workers w ! g) of Returned \<Rightarrow> Stopped | _ \<Rightarrow> Running))"

text \<open>What goroutine \<open>g\<close> did in a run.\<close>

definition actions_of :: "nat \<Rightarrow> (nat \<times> action) list \<Rightarrow> action list" where
  "actions_of g tr = map snd (filter (\<lambda>x. fst x = g) tr)"

text \<open>The clicks for which \<^verbatim>\<open>CreateClick\<close> was called, in the order of the calls.\<close>

fun createClick_calls :: "action list \<Rightarrow> Click list" where
  "createClick_calls [] = []"
| "createClick_calls (CreateClickCalled click r # acts) = click # createClick_calls acts"
| "createClick_calls (a # acts) = createClick_calls acts"

text \<open>
  The clicks still to be written: those of the events in flight and of the events in the
  channel.
\<close>

definition pending :: "world \<Rightarrow> Click multiset" where
  "pending w = mset (map click_of_event (held (workers w) @ ch_buf (ClickEventsChannel w)))"

text \<open>A stored click without the identifier the database gave it.\<close>

definition payload :: "Click \<Rightarrow> Click" where
  "payload c = c\<lparr>Click_ID := 0\<rparr>"

text \<open>Whether the environment never makes a statement fail.\<close>

definition never_fails :: "env_event list \<Rightarrow> bool" where
  "never_fails es = list_all (\<lambda>e. case e of Fault err \<Rightarrow> False | _ \<Rightarrow> True) es"

text \<open>
  A pool that is left to drain the channel: the context is not cancelled, the channel is
  open, the environment lets every statement through, and there is at least one worker,
  none of which has returned.
\<close>

definition pool_ok :: "world \<Rightarrow> bool" where
  "pool_ok w =
     (\<not> ctx_done w \<and> \<not> ch_closed (ClickEventsChannel w) \<and> never_fails (env w)
      \<and> workers w \<noteq> [] \<and> list_all (\<lambda>x. snd x \<noteq> Returned) (workers w))"

text \<open>
  A measure of what a pool has left to do: it counts three for an event in the channel, two
  for an event that is held and one for a worker that has not started.
\<close>

fun cost :: "pc \<Rightarrow> nat" where
  "cost Spawned = 1"
| "cost (Persisting ev) = 2"
| "cost p = 0"

definition work :: "world \<Rightarrow> nat" where
  "work w = 3 * length (ch_buf (ClickEventsChannel w))
            + sum_list (map (\<lambda>x. cost (snd x)) (workers w))"

text \<open>The clicks in the table, without the identifiers the database gave them.\<close>

definition stored :: "world \<Rightarrow> Click multiset" where
  "stored w = mset (map payload (clicks w))"

section \<open>Concrete states\<close>

text \<open>
  An empty database in a quiet environment, a reader that draws 0, 1, 2, ..., an open
  channel of capacity 2 and no workers.
\<close>

definition quiet_world :: world where
  "quiet_world =
     \<lparr>links = [], clicks = [], env = [], sql_log = [],
      rand_reader = (\<lambda>n. Inr n), rand_pos = 0, logs = [], clock = 0,
      ClickEventsChannel = make_chan 2, ctx_done = False, workers = []\<rparr>"

text \<open>Two click events.\<close>

definition event_A :: ClickEvent where
  "event_A = \<lparr>ev_LinkID = 1, ev_ShortCode = ''abcdef'', ev_Timestamp = 10,
               ev_UserAgent = ''curl'', IP = ''10.0.0.1''\<rparr>"

definition event_B :: ClickEvent where
  "event_B = \<lparr>ev_LinkID = 2, ev_ShortCode = ''ghijkl'', ev_Timestamp = 11,
               ev_UserAgent = ''wget'', IP = ''10.0.0.2''\<rparr>"

section \<open>Properties of the link service\<close>

subsection \<open>Short codes\<close>

lemma length_charset: "length charset = 62"
  by (simp add: charset_def)

lemma GenerateShortCode_loop_done:
  "\<not> i < len \<Longrightarrow> GenerateShortCode_loop w len i result = (Inr result, w)"
  by (subst GenerateShortCode_loop.simps) simp

lemma GenerateShortCode_loop_err:
  "i < len \<Longrightarrow> rand_reader w (rand_pos w) = Inl err \<Longrightarrow>
   GenerateShortCode_loop w len i result =
     (Inl (Errorf ''erreur lors de la generation du code aleatoire: %w'' [] err),
      w\<lparr>rand_pos := Suc (rand_pos w)\<rparr>)"
  by (subst GenerateShortCode_loop.simps) (simp add: rand_Int_def)

lemma GenerateShortCode_loop_step:
  "i < len \<Longrightarrow> rand_reader w (rand_pos w) = Inr n \<Longrightarrow>
   GenerateShortCode_loop w len i result =
     GenerateShortCode_loop (w\<lparr>rand_pos := Suc (rand_pos w)\<rparr>) len (Suc i)
       (result[i := charset ! (n mod length charset)])"
  by (subst GenerateShortCode_loop.simps) (simp add: rand_Int_def)

lemma GenerateShortCode_loop_frame:
  "\<exists>p. snd (GenerateShortCode_loop w len i result) = w\<lparr>rand_pos := p\<rparr>"
proof (induction "len - i" arbitrary: w i result)
  case 0
  then have "\<not> i < len" by simp
  then have "snd (GenerateShortCode_loop w len i result) = w\<lparr>rand_pos := rand_pos w\<rparr>"
    by (simp add: GenerateShortCode_loop_done)
  then show ?case by blast
next
  case (Suc k)
  then have lt: "i < len" and k: "k = len - Suc i" by simp_all
  show ?case
  proof (cases "rand_reader w (rand_pos w)")
    case (Inl err)
    show ?thesis
      by (rule exI [of _ "Suc (rand_pos w)"]) (simp add: GenerateShortCode_loop_err [OF lt Inl])
  next
    case (Inr n)
    from Suc.hyps(1) [OF k] obtain p where
      "snd (GenerateShortCode_loop (w\<lparr>rand_pos := Suc (rand_pos w)\<rparr>) len (Suc i)
         (result[i := charset ! (n mod length charset)])) = w\<lparr>rand_pos := Suc (rand_pos w)\<rparr>\<lparr>rand_pos := p\<rparr>"
      by blast
    then show ?thesis
      by (intro exI [of _ p]) (simp add: GenerateShortCode_loop_step [OF lt Inr])
  qed
qed

lemma GenerateShortCode_loop_ok:
  "fst (GenerateShortCode_loop w len i result) = Inr code \<Longrightarrow> length result = len \<Longrightarrow>
   \<forall>j<i. result ! j \<in> set charset \<Longrightarrow>
   length code = len \<and> (\<forall>j<len. code ! j \<in> set charset) \<and>
   rand_pos (snd (GenerateShortCode_loop w len i result)) = rand_pos w + (len - i)"
proof (induction "len - i" arbitrary: w i result)
  case 0
  then have "\<not> i < len" by simp
  with 0 show ?case by (simp add: GenerateShortCode_loop_done)
next
  case (Suc k)
  then have lt: "i < len" and k: "k = len - Suc i" by simp_all
  show ?case
  proof (cases "rand_reader w (rand_pos w)")
    case (Inl err)
    with Suc.prems(1) lt show ?thesis by (simp add: GenerateShortCode_loop_err)
  next
    case (Inr n)
    let ?r = "result[i := charset ! (n mod length charset)]"
    let ?w = "w\<lparr>rand_pos := Suc (rand_pos w)\<rparr>"
    have unf: "GenerateShortCode_loop w len i result = GenerateShortCode_loop ?w len (Suc i) ?r"
      by (rule GenerateShortCode_loop_step [OF lt Inr])
    have c: "charset ! (n mod length charset) \<in> set charset"
      by (simp add: length_charset)
    have inv: "\<forall>j<Suc i. ?r ! j \<in> set charset"
      using Suc.prems(2,3) lt c by (auto simp: nth_list_update less_Suc_eq)
    from Suc.hyps(1) [OF k, of ?w ?r] Suc.prems(1,2) inv unf lt show ?thesis
      by simp
  qed
qed

lemma GenerateShortCode_ok:
  assumes "fst (GenerateShortCode w len) = Inr code"
  shows "length code = len" and "set code \<subseteq> set charset"
    and "snd (GenerateShortCode w len) = w\<lparr>rand_pos := rand_pos w + len\<rparr>"
proof -
  from assms have *: "fst (GenerateShortCode_loop w len 0 (replicate len (CHR 0x00))) = Inr code"
    by (simp add: GenerateShortCode_def)
  from GenerateShortCode_loop_ok [OF *] have
    l: "length code = len" and m: "\<forall>j<len. code ! j \<in> set charset"
    and p: "rand_pos (snd (GenerateShortCode w len)) = rand_pos w + len"
    by (simp_all add: GenerateShortCode_def)
  show "length code = len" by (rule l)
  show "set code \<subseteq> set charset"
    using l m by (auto simp: in_set_conv_nth)
  from GenerateShortCode_loop_frame [of w len 0 "replicate len (CHR 0x00)"]
  obtain q where "snd (GenerateShortCode w len) = w\<lparr>rand_pos := q\<rparr>"
    by (auto simp: GenerateShortCode_def)
  with p show "snd (GenerateShortCode w len) = w\<lparr>rand_pos := rand_pos w + len\<rparr>"
    by simp
qed

lemma GenerateShortCode_frame: "\<exists>p. snd (GenerateShortCode w len) = w\<lparr>rand_pos := p\<rparr>"
  using GenerateShortCode_loop_frame by (simp add: GenerateShortCode_def)

subsection \<open>Lists\<close>

lemma find_append_if:
  "find P (xs @ ys) = (case find P xs of None \<Rightarrow> find P ys | Some x \<Rightarrow> Some x)"
  by (induction xs) auto

lemma find_Some_mem: "find P xs = Some x \<Longrightarrow> x \<in> set xs \<and> P x"
  by (induction xs) (auto split: if_splits)

subsection \<open>Statements\<close>

lemma begin_statement_fst:
  "fst (begin_statement w q) = (case env w of Fault err # es \<Rightarrow> Some err | _ \<Rightarrow> None)"
  by (simp add: begin_statement_def Let_def split: list.splits env_event.splits)

lemma begin_statement_None_iff:
  "fst (begin_statement w q) = None \<longleftrightarrow> \<not> statement_fails w"
  by (simp add: begin_statement_fst statement_fails_def split: list.splits env_event.splits)

lemma begin_statement_frame [simp]:
  "sql_log (snd (begin_statement w q)) = sql_log w @ [q]"
  "env (snd (begin_statement w q)) = tl (env w)"
  "clicks (snd (begin_statement w q)) = clicks w"
  "rand_reader (snd (begin_statement w q)) = rand_reader w"
  "rand_pos (snd (begin_statement w q)) = rand_pos w"
  "logs (snd (begin_statement w q)) = logs w"
  "clock (snd (begin_statement w q)) = clock w"
  "ClickEventsChannel (snd (begin_statement w q)) = ClickEventsChannel w"
  "ctx_done (snd (begin_statement w q)) = ctx_done w"
  "workers (snd (begin_statement w q)) = workers w"
  by (simp_all add: begin_statement_def Let_def concurrent_insert_def
        split: list.splits env_event.splits)

lemma begin_statement_links:
  "links (snd (begin_statement w q)) =
     (case env w of
        Concurrent code url # es \<Rightarrow>
          (if short_code_taken (links w) code then links w
           else links w @ [\<lparr>ID = next_link_id (links w), ShortCode = code, LongURL = url,
                            CreatedAt = clock w\<rparr>])
      | _ \<Rightarrow> links w)"
  by (simp add: begin_statement_def Let_def concurrent_insert_def
        split: list.splits env_event.splits)

lemma begin_statement_fault_links:
  "fst (begin_statement w q) = Some err \<Longrightarrow> links (snd (begin_statement w q)) = links w"
  by (simp add: begin_statement_fst begin_statement_links split: list.splits env_event.splits)

text \<open>A statement never removes a row, and a row it lets in has a code that was free.\<close>

lemma begin_statement_keeps_find:
  "find (\<lambda>l. ShortCode l = code) (links w) = Some l \<Longrightarrow>
   find (\<lambda>l. ShortCode l = code) (links (snd (begin_statement w q))) = Some l"
  by (simp add: begin_statement_links find_append_if split: list.splits env_event.splits)

subsection \<open>Link repository\<close>

lemma db_First_link_frame [simp]:
  "sql_log (snd (db_First_link w c)) = sql_log w @ [SelectLinkByShortCode c]"
  "env (snd (db_First_link w c)) = tl (env w)"
  "clicks (snd (db_First_link w c)) = clicks w"
  "rand_reader (snd (db_First_link w c)) = rand_reader w"
  "rand_pos (snd (db_First_link w c)) = rand_pos w"
  "logs (snd (db_First_link w c)) = logs w"
  "clock (snd (db_First_link w c)) = clock w"
  "ClickEventsChannel (snd (db_First_link w c)) = ClickEventsChannel w"
  "ctx_done (snd (db_First_link w c)) = ctx_done w"
  "workers (snd (db_First_link w c)) = workers w"
  "links (snd (db_First_link w c)) = links (snd (begin_statement w (SelectLinkByShortCode c)))"
  by (simp_all add: db_First_link_def split_beta split: option.splits)

lemma db_First_link_fst:
  "fst (db_First_link w c) =
     (case fst (begin_statement w (SelectLinkByShortCode c)) of
        Some err \<Rightarrow> Inl err
      | None \<Rightarrow>
         (case find (\<lambda>l. ShortCode l = c) (links (snd (begin_statement w (SelectLinkByShortCode c)))) of
            None \<Rightarrow> Inl ErrRecordNotFound | Some l \<Rightarrow> Inr l))"
  by (simp add: db_First_link_def split_beta split: option.splits)

lemma GetLinkByShortCode_frame [simp]:
  "sql_log (snd (GormLinkRepository_GetLinkByShortCode w c)) = sql_log w @ [SelectLinkByShortCode c]"
  "env (snd (GormLinkRepository_GetLinkByShortCode w c)) = tl (env w)"
  "clicks (snd (GormLinkRepository_GetLinkByShortCode w c)) = clicks w"
  "rand_reader (snd (GormLinkRepository_GetLinkByShortCode w c)) = rand_reader w"
  "rand_pos (snd (GormLinkRepository_GetLinkByShortCode w c)) = rand_pos w"
  "logs (snd (GormLinkRepository_GetLinkByShortCode w c)) = logs w"
  "clock (snd (GormLinkRepository_GetLinkByShortCode w c)) = clock w"
  "ClickEventsChannel (snd (GormLinkRepository_GetLinkByShortCode w c)) = ClickEventsChannel w"
  "ctx_done (snd (GormLinkRepository_GetLinkByShortCode w c)) = ctx_done w"
  "workers (snd (GormLinkRepository_GetLinkByShortCode w c)) = workers w"
  "links (snd (GormLinkRepository_GetLinkByShortCode w c)) =
     links (snd (begin_statement w (SelectLinkByShortCode c)))"
  by (simp_all add: GormLinkRepository_GetLinkByShortCode_def split_beta split: sum.splits)

lemma GetLinkByShortCode_fst:
  "fst (GormLinkRepository_GetLinkByShortCode w c) =
     (case fst (db_First_link w c) of
        Inl err \<Rightarrow> Inl (Errorf ''erreur lors de la recuperation du lien par shortCode '%s' : %w''
                     [Arg_s c] err)
      | Inr l \<Rightarrow> Inr l)"
  by (simp add: GormLinkRepository_GetLinkByShortCode_def split_beta split: sum.splits)

text \<open>A lookup that fails with anything but "not found" was failed by the environment.\<close>

lemma GetLinkByShortCode_other_error:
  assumes "fst (GormLinkRepository_GetLinkByShortCode w c) = Inl err"
    and "\<not> errors_Is err ErrRecordNotFound"
  shows "links (snd (GormLinkRepository_GetLinkByShortCode w c)) = links w"
    and "statement_fails w"
proof -
  from assms have "fst (begin_statement w (SelectLinkByShortCode c)) \<noteq> None"
    by (auto simp: GetLinkByShortCode_fst db_First_link_fst split: sum.splits option.splits)
  then show "statement_fails w" by (simp add: begin_statement_None_iff)
  from \<open>fst (begin_statement w (SelectLinkByShortCode c)) \<noteq> None\<close>
  show "links (snd (GormLinkRepository_GetLinkByShortCode w c)) = links w"
    by (auto simp: begin_statement_fault_links)
qed

lemma GetLinkByShortCode_found:
  assumes "\<not> statement_fails w" and "find (\<lambda>l. ShortCode l = c) (links w) = Some l"
  shows "fst (GormLinkRepository_GetLinkByShortCode w c) = Inr l"
proof -
  from assms(1) have "fst (begin_statement w (SelectLinkByShortCode c)) = None"
    by (simp add: begin_statement_None_iff)
  with begin_statement_keeps_find [OF assms(2), of "SelectLinkByShortCode c"]
  show ?thesis
    by (simp add: GetLinkByShortCode_fst db_First_link_fst)
qed

lemma GetLinkByShortCode_Inr:
  assumes "fst (GormLinkRepository_GetLinkByShortCode w c) = Inr l"
  shows "l \<in> set (links (snd (GormLinkRepository_GetLinkByShortCode w c)))" and "ShortCode l = c"
  using assms
  by (auto simp: GetLinkByShortCode_fst db_First_link_fst split: sum.splits option.splits
      dest: find_Some_mem)

lemma db_Create_link_frame [simp]:
  "sql_log (snd (db_Create_link w l)) = sql_log w @ [InsertLink l]"
  "env (snd (db_Create_link w l)) = tl (env w)"
  "clicks (snd (db_Create_link w l)) = clicks w"
  "rand_reader (snd (db_Create_link w l)) = rand_reader w"
  "rand_pos (snd (db_Create_link w l)) = rand_pos w"
  "logs (snd (db_Create_link w l)) = logs w"
  "clock (snd (db_Create_link w l)) = clock w"
  "ClickEventsChannel (snd (db_Create_link w l)) = ClickEventsChannel w"
  "ctx_done (snd (db_Create_link w l)) = ctx_done w"
  "workers (snd (db_Create_link w l)) = workers w"
  by (simp_all add: db_Create_link_def split_beta Let_def split: option.splits)

lemma CreateLink_repo_frame [simp]:
  "sql_log (snd (GormLinkRepository_CreateLink w l)) = sql_log w @ [InsertLink l]"
  "env (snd (GormLinkRepository_CreateLink w l)) = tl (env w)"
  "clicks (snd (GormLinkRepository_CreateLink w l)) = clicks w"
  "rand_reader (snd (GormLinkRepository_CreateLink w l)) = rand_reader w"
  "rand_pos (snd (GormLinkRepository_CreateLink w l)) = rand_pos w"
  "logs (snd (GormLinkRepository_CreateLink w l)) = logs w"
  "clock (snd (GormLinkRepository_CreateLink w l)) = clock w"
  "ClickEventsChannel (snd (GormLinkRepository_CreateLink w l)) = ClickEventsChannel w"
  "ctx_done (snd (GormLinkRepository_CreateLink w l)) = ctx_done w"
  "workers (snd (GormLinkRepository_CreateLink w l)) = workers w"
  by (simp_all add: GormLinkRepository_CreateLink_def split_beta split: sum.splits)

text \<open>A stored link is the only row with its short code, and it carries the given fields.\<close>

lemma db_Create_link_Inr:
  assumes "fst (db_Create_link w l) = Inr row"
  shows "find (\<lambda>x. ShortCode x = ShortCode l) (links (snd (db_Create_link w l))) = Some row"
    and "ShortCode row = ShortCode l" and "LongURL row = LongURL l"
  using assms
  by (auto simp: db_Create_link_def split_beta Let_def short_code_taken_def find_append_if
      split: option.splits if_splits)

lemma CreateLink_repo_Inr:
  assumes "fst (GormLinkRepository_CreateLink w l) = Inr row"
  shows "find (\<lambda>x. ShortCode x = ShortCode l) (links (snd (GormLinkRepository_CreateLink w l)))
           = Some row"
    and "ShortCode row = ShortCode l" and "LongURL row = LongURL l"
proof -
  from assms have *: "fst (db_Create_link w l) = Inr row"
    and **: "snd (GormLinkRepository_CreateLink w l) = snd (db_Create_link w l)"
    by (auto simp: GormLinkRepository_CreateLink_def split_beta split: sum.splits)
  from db_Create_link_Inr [OF *] ** show
    "find (\<lambda>x. ShortCode x = ShortCode l) (links (snd (GormLinkRepository_CreateLink w l)))
           = Some row"
    "ShortCode row = ShortCode l" "LongURL row = LongURL l"
    by simp_all
qed

lemma replicate_6: "replicate 6 x = [x, x, x, x, x, x]"
  by (simp add: eval_nat_numeral)

subsection \<open>The retry loop\<close>

lemma CreateLink_loop_done:
  "\<not> i < maxRetries \<Longrightarrow> CreateLink_loop w i = (Inr '''', w)"
  by (subst CreateLink_loop.simps) simp

lemma CreateLink_loop_generate_error:
  "i < maxRetries \<Longrightarrow> GenerateShortCode w 6 = (Inl err, w1) \<Longrightarrow>
   CreateLink_loop w i = (Inl (Errorf ''erreur lors de la generation du code court: %w'' [] err), w1)"
  by (subst CreateLink_loop.simps) simp

lemma CreateLink_loop_free:
  "i < maxRetries \<Longrightarrow> GenerateShortCode w 6 = (Inr code, w1) \<Longrightarrow>
   GormLinkRepository_GetLinkByShortCode w1 code = (Inl err, w2) \<Longrightarrow>
   errors_Is err ErrRecordNotFound \<Longrightarrow> CreateLink_loop w i = (Inr code, w2)"
  by (subst CreateLink_loop.simps) simp

lemma CreateLink_loop_precheck_error:
  "i < maxRetries \<Longrightarrow> GenerateShortCode w 6 = (Inr code, w1) \<Longrightarrow>
   GormLinkRepository_GetLinkByShortCode w1 code = (Inl err, w2) \<Longrightarrow>
   \<not> errors_Is err ErrRecordNotFound \<Longrightarrow>
   CreateLink_loop w i =
     (Inl (Errorf ''database error checking short code uniqueness: %w'' [] err), w2)"
  by (subst CreateLink_loop.simps) simp

lemma CreateLink_loop_collision:
  "i < maxRetries \<Longrightarrow> GenerateShortCode w 6 = (Inr code, w1) \<Longrightarrow>
   GormLinkRepository_GetLinkByShortCode w1 code = (Inr l, w2) \<Longrightarrow>
   CreateLink_loop w i =
     CreateLink_loop (log_Printf w2 (LogShortCodeExists code (i + 1) maxRetries)) (i + 1)"
  by (subst CreateLink_loop.simps) simp

text \<open>A non-empty code that leaves the loop is one that \<open>GenerateShortCode\<close> produced.\<close>

lemma CreateLink_loop_code:
  "fst (CreateLink_loop w i) = Inr code \<Longrightarrow> code \<noteq> '''' \<Longrightarrow>
   length code = 6 \<and> set code \<subseteq> set charset"
proof (induction "maxRetries - i" arbitrary: w i)
  case 0
  then have "\<not> i < maxRetries" by simp
  with 0 show ?case by (simp add: CreateLink_loop_done)
next
  case (Suc k)
  then have lt: "i < maxRetries" and k: "k = maxRetries - (i + 1)" by simp_all
  obtain g w1 where g: "GenerateShortCode w 6 = (g, w1)" by (cases "GenerateShortCode w 6")
  show ?case
  proof (cases g)
    case (Inl err)
    with Suc.prems lt g show ?thesis by (simp add: CreateLink_loop_generate_error)
  next
    case (Inr c)
    with g have gc: "GenerateShortCode w 6 = (Inr c, w1)" by simp
    then have ok: "length c = 6 \<and> set c \<subseteq> set charset"
      using GenerateShortCode_ok(1,2) [of w 6 c] by simp
    obtain r w2 where r: "GormLinkRepository_GetLinkByShortCode w1 c = (r, w2)"
      by (cases "GormLinkRepository_GetLinkByShortCode w1 c")
    show ?thesis
    proof (cases r)
      case (Inl err)
      with r have re: "GormLinkRepository_GetLinkByShortCode w1 c = (Inl err, w2)" by simp
      show ?thesis
      proof (cases "errors_Is err ErrRecordNotFound")
        case True
        from CreateLink_loop_free [OF lt gc re True] Suc.prems ok show ?thesis by simp
      next
        case False
        from CreateLink_loop_precheck_error [OF lt gc re False] Suc.prems show ?thesis by simp
      qed
    next
      case (Inr l)
      with r have rl: "GormLinkRepository_GetLinkByShortCode w1 c = (Inr l, w2)" by simp
      from CreateLink_loop_collision [OF lt gc rl] Suc.prems Suc.hyps(1) [OF k]
      show ?thesis by simp
    qed
  qed
qed

subsection \<open>Storage errors in the uniqueness pre-check\<close>

text \<open>
  Claim C10. When, at any attempt of the retry loop, the uniqueness pre-check
  (\<^verbatim>\<open>GetLinkByShortCode\<close>) fails with an error other than "record not found",
  \<^verbatim>\<open>CreateLink\<close> returns at once with an error that wraps the storage error. Nothing more
  is drawn from the random source than the six characters of the current candidate, the
  only statement sent to the database is the lookup, and the table of links is unchanged.
\<close>

theorem CreateLink_precheck_error_aborts:
  assumes "i < maxRetries"
    and "GenerateShortCode w 6 = (Inr code, w1)"
    and "GormLinkRepository_GetLinkByShortCode w1 code = (Inl err, w2)"
    and "\<not> errors_Is err ErrRecordNotFound"
  shows "CreateLink_from w i longURL =
           (Inl (Errorf ''database error checking short code uniqueness: %w'' [] err), w2)
         \<and> rand_pos w2 = rand_pos w + 6
         \<and> sql_log w2 = sql_log w @ [SelectLinkByShortCode code]
         \<and> links w2 = links w
         \<and> logs w2 = logs w"
proof -
  have res: "CreateLink_from w i longURL =
           (Inl (Errorf ''database error checking short code uniqueness: %w'' [] err), w2)"
    by (simp add: CreateLink_from_def CreateLink_after_loop_def
        CreateLink_loop_precheck_error [OF assms])
  from assms(2) have w1: "w1 = w\<lparr>rand_pos := rand_pos w + 6\<rparr>"
    using GenerateShortCode_ok(3) [of w 6 code] by simp
  from assms(3) have w2: "w2 = snd (GormLinkRepository_GetLinkByShortCode w1 code)"
    and e: "fst (GormLinkRepository_GetLinkByShortCode w1 code) = Inl err"
    by simp_all
  have "links w2 = links w1"
    unfolding w2 by (rule GetLinkByShortCode_other_error(1) [OF e assms(4)])
  with w1 w2 res show ?thesis by simp
qed

text \<open>
  An instance: the database is locked when the first candidate, \<open>abcdef\<close>, is looked up.
\<close>

theorem CreateLink_precheck_error_aborts_witness:
  "LinkService_CreateLink (quiet_world\<lparr>env := [Fault (ErrDriver ''database is locked'')]\<rparr>)
     ''https://example.com'' =
     (Inl (Errorf ''database error checking short code uniqueness: %w'' []
        (Errorf ''erreur lors de la recuperation du lien par shortCode '%s' : %w''
           [Arg_s ''abcdef'']
           (ErrDriver ''database is locked''))),
      quiet_world\<lparr>env := [], rand_pos := 6, sql_log := [SelectLinkByShortCode ''abcdef'']\<rparr>)"
proof -
  have g: "GenerateShortCode (quiet_world\<lparr>env := [Fault (ErrDriver ''database is locked'')]\<rparr>) 6 =
       (Inr ''abcdef'',
        quiet_world\<lparr>env := [Fault (ErrDriver ''database is locked'')], rand_pos := 6\<rparr>)"
    by (simp add: GenerateShortCode_def GenerateShortCode_loop.simps rand_Int_def
        quiet_world_def make_chan_def charset_def replicate_6)
  have r: "GormLinkRepository_GetLinkByShortCode
       (quiet_world\<lparr>env := [Fault (ErrDriver ''database is locked'')], rand_pos := 6\<rparr>) ''abcdef'' =
     (Inl (Errorf ''erreur lors de la recuperation du lien par shortCode '%s' : %w''
           [Arg_s ''abcdef'']
           (ErrDriver ''database is locked'')),
      quiet_world\<lparr>env := [], rand_pos := 6, sql_log := [SelectLinkByShortCode ''abcdef'']\<rparr>)"
    by (simp add: GormLinkRepository_GetLinkByShortCode_def db_First_link_def
        begin_statement_def quiet_world_def make_chan_def)
  have n: "\<not> errors_Is (Errorf ''erreur lors de la recuperation du lien par shortCode '%s' : %w''
           [Arg_s ''abcdef'']
           (ErrDriver ''database is locked'')) ErrRecordNotFound"
    by simp
  have i: "0 < maxRetries" by (simp add: maxRetries_def)
  from CreateLink_precheck_error_aborts [OF i g r n, of "''https://example.com''"]
  show ?thesis by (simp add: LinkService_CreateLink_def)
qed

lemma LinkService_GetLinkByShortCode_fst:
  "fst (LinkService_GetLinkByShortCode w c) =
     (case fst (GormLinkRepository_GetLinkByShortCode w c) of
        Inl err \<Rightarrow> Inl (Errorf ''erreur lors de la recuperation du lien: %w'' [] err)
      | Inr l \<Rightarrow> Inr l)"
  by (simp add: LinkService_GetLinkByShortCode_def split_beta split: sum.splits)

lemma LinkService_GetLinkByShortCode_snd:
  "snd (LinkService_GetLinkByShortCode w c) = snd (GormLinkRepository_GetLinkByShortCode w c)"
  by (simp add: LinkService_GetLinkByShortCode_def split_beta split: sum.splits)

text \<open>How a successful \<open>CreateLink\<close> came about.\<close>

lemma CreateLink_from_Inr:
  assumes "CreateLink_from w i longURL = (Inr link, w')"
  obtains code w1 where "CreateLink_loop w i = (Inr code, w1)" and "code \<noteq> ''''"
    and "GormLinkRepository_CreateLink w1
           \<lparr>ID = 0, ShortCode = code, LongURL = longURL, CreatedAt = time_Now w1\<rparr> = (Inr link, w')"
proof -
  obtain r w1 where l: "CreateLink_loop w i = (r, w1)" by (cases "CreateLink_loop w i")
  show thesis
  proof (cases r)
    case (Inl err)
    with assms l show ?thesis by (simp add: CreateLink_from_def CreateLink_after_loop_def)
  next
    case (Inr code)
    with assms l have ne: "code \<noteq> ''''"
      by (auto simp: CreateLink_from_def CreateLink_after_loop_def)
    with assms l Inr have "GormLinkRepository_CreateLink w1
           \<lparr>ID = 0, ShortCode = code, LongURL = longURL, CreatedAt = time_Now w1\<rparr> = (Inr link, w')"
      by (auto simp: CreateLink_from_def CreateLink_after_loop_def split: prod.splits sum.splits)
    with l Inr ne show ?thesis by (auto intro: that)
  qed
qed

subsection \<open>A created link resolves\<close>

text \<open>
  Claim C3. When \<^verbatim>\<open>CreateLink\<close> succeeds, the short code of the returned link has six
  characters, the length \<^verbatim>\<open>CreateLink\<close> asks of \<^verbatim>\<open>GenerateShortCode\<close>, all of them
  from \<open>charset\<close>; the link carries the long URL that was given; and a lookup of that code
  in the resulting state, unless the environment makes the lookup statement fail, returns
  that very link.
\<close>

theorem CreateLink_code_resolves:
  assumes "LinkService_CreateLink w longURL = (Inr link, w')"
  shows "length (ShortCode link) = 6
         \<and> set (ShortCode link) \<subseteq> set charset
         \<and> LongURL link = longURL
         \<and> (\<not> statement_fails w' \<longrightarrow>
              fst (LinkService_GetLinkByShortCode w' (ShortCode link)) = Inr link)"
proof -
  from assms have "CreateLink_from w 0 longURL = (Inr link, w')"
    by (simp add: LinkService_CreateLink_def)
  then obtain code w1 where l: "CreateLink_loop w 0 = (Inr code, w1)" and ne: "code \<noteq> ''''"
    and c: "GormLinkRepository_CreateLink w1
           \<lparr>ID = 0, ShortCode = code, LongURL = longURL, CreatedAt = time_Now w1\<rparr> = (Inr link, w')"
    by (rule CreateLink_from_Inr)
  from l ne have code: "length code = 6 \<and> set code \<subseteq> set charset"
    using CreateLink_loop_code [of w 0 code] by simp
  from c have f: "fst (GormLinkRepository_CreateLink w1
           \<lparr>ID = 0, ShortCode = code, LongURL = longURL, CreatedAt = time_Now w1\<rparr>) = Inr link"
    and w': "w' = snd (GormLinkRepository_CreateLink w1
           \<lparr>ID = 0, ShortCode = code, LongURL = longURL, CreatedAt = time_Now w1\<rparr>)"
    by simp_all
  from CreateLink_repo_Inr [OF f] w' have
    found: "find (\<lambda>x. ShortCode x = code) (links w') = Some link"
    and sc: "ShortCode link = code" and lu: "LongURL link = longURL"
    by simp_all
  have "fst (LinkService_GetLinkByShortCode w' (ShortCode link)) = Inr link"
    if "\<not> statement_fails w'"
    using GetLinkByShortCode_found [OF that, of code link] found sc
    by (simp add: LinkService_GetLinkByShortCode_fst)
  with code sc lu show ?thesis by simp
qed

lemma quiet_CreateLink:
  "LinkService_CreateLink quiet_world ''https://example.com'' =
     (Inr \<lparr>ID = 1, ShortCode = ''abcdef'', LongURL = ''https://example.com'', CreatedAt = 0\<rparr>,
      quiet_world\<lparr>links := [\<lparr>ID = 1, ShortCode = ''abcdef'', LongURL = ''https://example.com'',
                                CreatedAt = 0\<rparr>],
        rand_pos := 6,
        sql_log := [SelectLinkByShortCode ''abcdef'',
          InsertLink \<lparr>ID = 0, ShortCode = ''abcdef'', LongURL = ''https://example.com'',
                      CreatedAt = 0\<rparr>]\<rparr>)"
  by (simp add: LinkService_CreateLink_def CreateLink_from_def CreateLink_after_loop_def
      CreateLink_loop.simps maxRetries_def GenerateShortCode_def GenerateShortCode_loop.simps
      rand_Int_def quiet_world_def make_chan_def charset_def replicate_6
      GormLinkRepository_GetLinkByShortCode_def db_First_link_def begin_statement_def
      GormLinkRepository_CreateLink_def db_Create_link_def time_Now_def next_link_id_def
      short_code_taken_def Let_def)

text \<open>An instance: the first link created in an empty database gets the code \<open>abcdef\<close>.\<close>

theorem CreateLink_code_resolves_witness:
  "fst (LinkService_CreateLink quiet_world ''https://example.com'') =
     Inr \<lparr>ID = 1, ShortCode = ''abcdef'', LongURL = ''https://example.com'', CreatedAt = 0\<rparr>
   \<and> \<not> statement_fails (snd (LinkService_CreateLink quiet_world ''https://example.com''))
   \<and> length ''abcdef'' = 6
   \<and> set ''abcdef'' \<subseteq> set charset
   \<and> fst (LinkService_GetLinkByShortCode
            (snd (LinkService_CreateLink quiet_world ''https://example.com'')) ''abcdef'') =
       Inr \<lparr>ID = 1, ShortCode = ''abcdef'', LongURL = ''https://example.com'', CreatedAt = 0\<rparr>"
proof -
  have q: "\<not> statement_fails (snd (LinkService_CreateLink quiet_world ''https://example.com''))"
    by (subst quiet_CreateLink) (simp add: statement_fails_def quiet_world_def)
  from CreateLink_code_resolves [OF quiet_CreateLink] q show ?thesis
    by (simp add: quiet_CreateLink)
qed

subsection \<open>Failures at persist time\<close>

text \<open>
  What the code does with a failure of the insert: once the loop has been left with a free
  code, any error of the insert (a violation of the unique index on the short code
  included) ends \<^verbatim>\<open>CreateLink\<close>. It returns an error wrapping the storage error, draws
  nothing more from the random source, and sends no statement after the insert.
\<close>

lemma CreateLink_persist_failure_returns:
  assumes "CreateLink_loop w i = (Inr code, w1)" and "code \<noteq> ''''"
    and "GormLinkRepository_CreateLink w1
           \<lparr>ID = 0, ShortCode = code, LongURL = longURL, CreatedAt = time_Now w1\<rparr> =
         (Inl err, w2)"
  shows "CreateLink_from w i longURL =
           (Inl (Errorf ''erreur lors de la creation du lien: %w'' [] err), w2)
         \<and> rand_pos w2 = rand_pos w1
         \<and> sql_log w2 = sql_log w1 @
             [InsertLink \<lparr>ID = 0, ShortCode = code, LongURL = longURL, CreatedAt = time_Now w1\<rparr>]
         \<and> logs w2 = logs w1"
proof -
  from assms(3) have w2: "w2 = snd (GormLinkRepository_CreateLink w1
           \<lparr>ID = 0, ShortCode = code, LongURL = longURL, CreatedAt = time_Now w1\<rparr>)"
    by simp
  have "CreateLink_from w i longURL =
           (Inl (Errorf ''erreur lors de la creation du lien: %w'' [] err), w2)"
    using assms by (simp add: CreateLink_from_def CreateLink_after_loop_def)
  then show ?thesis by (simp add: w2)
qed

text \<open>
  Claim C1. A uniqueness violation at persist time is to count as a collision and start
  one more attempt, as a code that the pre-check finds taken does. The code misses this
  case. Here another client commits the code \<open>aaaaaa\<close> between the pre-check of the first
  attempt and the insert. The insert is rejected by the unique index, and \<^verbatim>\<open>CreateLink\<close>
  returns that error after a single candidate (six draws, one lookup, one insert), with
  four attempts left unused.
\<close>

theorem CreateLink_persist_violation_is_fatal:
  "fst (LinkService_CreateLink
          (quiet_world\<lparr>env := [Quiet, Concurrent ''aaaaaa'' ''https://other.example''],
                       rand_reader := (\<lambda>n. Inr 0)\<rparr>) ''https://example.com'') =
     Inl (Errorf ''erreur lors de la creation du lien: %w'' []
            (Errorf ''erreur lors de la creation du lien : %w'' [] ErrUniqueShortCode))
   \<and> rand_pos (snd (LinkService_CreateLink
          (quiet_world\<lparr>env := [Quiet, Concurrent ''aaaaaa'' ''https://other.example''],
                       rand_reader := (\<lambda>n. Inr 0)\<rparr>) ''https://example.com'')) = 6
   \<and> sql_log (snd (LinkService_CreateLink
          (quiet_world\<lparr>env := [Quiet, Concurrent ''aaaaaa'' ''https://other.example''],
                       rand_reader := (\<lambda>n. Inr 0)\<rparr>) ''https://example.com'')) =
       [SelectLinkByShortCode ''aaaaaa'',
        InsertLink \<lparr>ID = 0, ShortCode = ''aaaaaa'', LongURL = ''https://example.com'',
                    CreatedAt = 0\<rparr>]"
  by (simp add: LinkService_CreateLink_def CreateLink_from_def CreateLink_after_loop_def
      CreateLink_loop.simps maxRetries_def GenerateShortCode_def GenerateShortCode_loop.simps
      rand_Int_def quiet_world_def make_chan_def charset_def replicate_6
      GormLinkRepository_GetLinkByShortCode_def db_First_link_def begin_statement_def
      GormLinkRepository_CreateLink_def db_Create_link_def time_Now_def next_link_id_def
      concurrent_insert_def short_code_taken_def ErrUniqueShortCode_def Let_def)

lemma disk_full_loop:
  "CreateLink_loop
     (quiet_world\<lparr>env := [Quiet, Fault (ErrDriver ''database or disk is full'')]\<rparr>) 0 =
   (Inr ''abcdef'',
    quiet_world\<lparr>env := [Fault (ErrDriver ''database or disk is full'')], rand_pos := 6,
                 sql_log := [SelectLinkByShortCode ''abcdef'']\<rparr>)"
  by (simp add: CreateLink_loop.simps maxRetries_def GenerateShortCode_def
      GenerateShortCode_loop.simps rand_Int_def quiet_world_def make_chan_def charset_def
      replicate_6 GormLinkRepository_GetLinkByShortCode_def db_First_link_def
      begin_statement_def Let_def)

text \<open>An instance: the disk is full when the row is inserted.\<close>

lemma CreateLink_persist_failure_disk_full:
  "LinkService_CreateLink
     (quiet_world\<lparr>env := [Quiet, Fault (ErrDriver ''database or disk is full'')]\<rparr>)
     ''https://example.com'' =
   (Inl (Errorf ''erreur lors de la creation du lien: %w'' []
           (Errorf ''erreur lors de la creation du lien : %w'' []
              (ErrDriver ''database or disk is full''))),
    quiet_world\<lparr>env := [], rand_pos := 6,
      sql_log := [SelectLinkByShortCode ''abcdef'',
        InsertLink \<lparr>ID = 0, ShortCode = ''abcdef'', LongURL = ''https://example.com'',
                    CreatedAt = 0\<rparr>]\<rparr>)"
proof -
  have ne: "''abcdef'' \<noteq> ''''" by simp
  have ins: "GormLinkRepository_CreateLink
      (quiet_world\<lparr>env := [Fault (ErrDriver ''database or disk is full'')], rand_pos := 6,
                 sql_log := [SelectLinkByShortCode ''abcdef'']\<rparr>)
      \<lparr>ID = 0, ShortCode = ''abcdef'', LongURL = ''https://example.com'',
        CreatedAt = time_Now (quiet_world\<lparr>env := [Fault (ErrDriver ''database or disk is full'')],
                 rand_pos := 6, sql_log := [SelectLinkByShortCode ''abcdef'']\<rparr>)\<rparr> =
      (Inl (Errorf ''erreur lors de la creation du lien : %w'' []
              (ErrDriver ''database or disk is full'')),
       quiet_world\<lparr>env := [], rand_pos := 6,
         sql_log := [SelectLinkByShortCode ''abcdef'',
           InsertLink \<lparr>ID = 0, ShortCode = ''abcdef'', LongURL = ''https://example.com'',
                    CreatedAt = 0\<rparr>]\<rparr>)"
    by (simp add: quiet_world_def make_chan_def GormLinkRepository_CreateLink_def
        db_Create_link_def begin_statement_def time_Now_def Let_def)
  from CreateLink_persist_failure_returns [OF disk_full_loop ne ins]
  show ?thesis by (simp add: LinkService_CreateLink_def)
qed

subsection \<open>Exhausted retries\<close>

text \<open>
  Claim C2. When every attempt collides, \<^verbatim>\<open>CreateLink\<close> is to fail with the typed error
  that carries the number of attempts. Here the table holds the code \<open>aaaaaa\<close> and the
  reader draws 0 each time, so all five attempts collide: five lookups, five log lines.
  \<^verbatim>\<open>CreateLink\<close> then returns the value of \<^verbatim>\<open>errors.New\<close>, in which \<^verbatim>\<open>errors.As\<close> finds
  no \<^verbatim>\<open>ErrMaxRetriesExceeded\<close> and which carries no count of attempts.
\<close>

theorem CreateLink_exhaustion_returns_plain_error:
  "fst (LinkService_CreateLink
          (quiet_world\<lparr>links := [\<lparr>ID = 1, ShortCode = ''aaaaaa'',
                                    LongURL = ''https://other.example'', CreatedAt = 0\<rparr>],
                       rand_reader := (\<lambda>n. Inr 0)\<rparr>) ''https://example.com'') =
     Inl (ErrorsNew ''impossible de generer un code court unique apres plusieurs tentatives'')
   \<and> errors_As_ErrMaxRetriesExceeded
         (ErrorsNew ''impossible de generer un code court unique apres plusieurs tentatives'') =
       None
   \<and> sql_log (snd (LinkService_CreateLink
          (quiet_world\<lparr>links := [\<lparr>ID = 1, ShortCode = ''aaaaaa'',
                                    LongURL = ''https://other.example'', CreatedAt = 0\<rparr>],
                       rand_reader := (\<lambda>n. Inr 0)\<rparr>) ''https://example.com'')) =
       [SelectLinkByShortCode ''aaaaaa'', SelectLinkByShortCode ''aaaaaa'',
        SelectLinkByShortCode ''aaaaaa'', SelectLinkByShortCode ''aaaaaa'',
        SelectLinkByShortCode ''aaaaaa'']
   \<and> logs (snd (LinkService_CreateLink
          (quiet_world\<lparr>links := [\<lparr>ID = 1, ShortCode = ''aaaaaa'',
                                    LongURL = ''https://other.example'', CreatedAt = 0\<rparr>],
                       rand_reader := (\<lambda>n. Inr 0)\<rparr>) ''https://example.com'')) =
       [LogShortCodeExists ''aaaaaa'' 1 5, LogShortCodeExists ''aaaaaa'' 2 5,
        LogShortCodeExists ''aaaaaa'' 3 5, LogShortCodeExists ''aaaaaa'' 4 5,
        LogShortCodeExists ''aaaaaa'' 5 5]"
  by code_simp

section \<open>Properties of the click store, the queue and the handler\<close>

subsection \<open>Counting clicks\<close>

text \<open>
  Claim C8. For a link that has no click in the table, \<^verbatim>\<open>CountClicksByLinkID\<close> returns the
  count 0 and no error, provided the environment does not make the counting statement
  itself fail: the absence of clicks is not an error.
\<close>

theorem CountClicksByLinkID_no_clicks:
  assumes "filter (\<lambda>c. LinkID c = linkID) (clicks w) = []" and "\<not> statement_fails w"
  shows "fst (GormClickRepository_CountClicksByLinkID w linkID) = Inr 0"
proof -
  from assms(2) have "fst (begin_statement w (CountClicks linkID)) = None"
    by (simp add: begin_statement_None_iff)
  moreover have "clicks (snd (begin_statement w (CountClicks linkID))) = clicks w"
    by simp
  ultimately show ?thesis
    using assms(1)
    by (simp add: GormClickRepository_CountClicksByLinkID_def db_Count_clicks_def split_beta
        split: option.splits)
qed

text \<open>An instance: the only click belongs to link 2, and link 7 is counted.\<close>

theorem CountClicksByLinkID_no_clicks_witness:
  "filter (\<lambda>c. LinkID c = 7)
     (clicks (quiet_world\<lparr>clicks := [\<lparr>Click_ID = 1, LinkID = 2, Timestamp = 0,
                                         UserAgent = ''curl'', IPAddress = ''10.0.0.1''\<rparr>]\<rparr>)) = []
   \<and> \<not> statement_fails (quiet_world\<lparr>clicks := [\<lparr>Click_ID = 1, LinkID = 2, Timestamp = 0,
                                         UserAgent = ''curl'', IPAddress = ''10.0.0.1''\<rparr>]\<rparr>)
   \<and> fst (GormClickRepository_CountClicksByLinkID
        (quiet_world\<lparr>clicks := [\<lparr>Click_ID = 1, LinkID = 2, Timestamp = 0,
                                   UserAgent = ''curl'', IPAddress = ''10.0.0.1''\<rparr>]\<rparr>) 7) = Inr 0"
proof -
  have a: "filter (\<lambda>c. LinkID c = 7)
     (clicks (quiet_world\<lparr>clicks := [\<lparr>Click_ID = 1, LinkID = 2, Timestamp = 0,
                                         UserAgent = ''curl'', IPAddress = ''10.0.0.1''\<rparr>]\<rparr>)) = []"
    by simp
  have b: "\<not> statement_fails (quiet_world\<lparr>clicks := [\<lparr>Click_ID = 1, LinkID = 2, Timestamp = 0,
                                         UserAgent = ''curl'', IPAddress = ''10.0.0.1''\<rparr>]\<rparr>)"
    by (simp add: statement_fails_def quiet_world_def)
  from CountClicksByLinkID_no_clicks [OF a b] a b show ?thesis by simp
qed

subsection \<open>The queue\<close>

lemma tryEnqueue_all_open:
  assumes "\<not> ch_closed (ClickEventsChannel w)"
  shows "fst (tryEnqueue_all w es) =
           replicate (min (ch_cap (ClickEventsChannel w) - length (ch_buf (ClickEventsChannel w)))
                        (length es)) Sent
           @ replicate (length es -
               (ch_cap (ClickEventsChannel w) - length (ch_buf (ClickEventsChannel w)))) Dropped
         \<and> snd (tryEnqueue_all w es) =
           w\<lparr>ClickEventsChannel := (ClickEventsChannel w)
               \<lparr>ch_buf := ch_buf (ClickEventsChannel w) @
                  take (ch_cap (ClickEventsChannel w) - length (ch_buf (ClickEventsChannel w))) es\<rparr>,
             logs := logs w @ map (\<lambda>e. LogChannelFull (ev_ShortCode e))
                  (drop (ch_cap (ClickEventsChannel w) - length (ch_buf (ClickEventsChannel w))) es)\<rparr>"
  using assms
proof (induction es arbitrary: w)
  case Nil
  then show ?case by simp
next
  case (Cons e es)
  let ?c = "ClickEventsChannel w"
  show ?case
  proof (cases "length (ch_buf ?c) < ch_cap ?c")
    case True
    let ?w1 = "w\<lparr>ClickEventsChannel := ?c\<lparr>ch_buf := ch_buf ?c @ [e]\<rparr>\<rparr>"
    have t: "tryEnqueue w e = (Sent, ?w1)"
      using True Cons.prems by (simp add: tryEnqueue_def Let_def)
    have o: "\<not> ch_closed (ClickEventsChannel ?w1)" using Cons.prems by simp
    obtain k where k: "ch_cap ?c - length (ch_buf ?c) = Suc k"
      using True by (cases "ch_cap ?c - length (ch_buf ?c)") auto
    then have k': "ch_cap ?c - Suc (length (ch_buf ?c)) = k" by simp
    from Cons.IH [OF o] t k k' show ?thesis
      by (simp add: split_beta)
  next
    case False
    let ?w1 = "log_Printf w (LogChannelFull (ev_ShortCode e))"
    have t: "tryEnqueue w e = (Dropped, ?w1)"
      using False Cons.prems by (simp add: tryEnqueue_def Let_def)
    have o: "\<not> ch_closed (ClickEventsChannel ?w1)"
      using Cons.prems by (simp add: log_Printf_def)
    have z: "ch_cap ?c - length (ch_buf ?c) = 0" using False by simp
    from Cons.IH [OF o] t z show ?thesis
      by (simp add: split_beta log_Printf_def)
  qed
qed

text \<open>
  Claim C4. On a channel made with capacity \<open>C\<close>, from which nothing is received, every
  send of the handler's \<^verbatim>\<open>select\<close> returns with an outcome: the first \<open>C\<close> events are
  sent and stay in the buffer in the order of their arrival, every later one is dropped and
  logged, and the buffer then holds exactly \<open>C\<close> events.
\<close>

theorem tryEnqueue_bounded_fifo:
  "fst (tryEnqueue_all (w\<lparr>ClickEventsChannel := make_chan C\<rparr>) es) =
     replicate (min C (length es)) Sent @ replicate (length es - C) Dropped
   \<and> ch_buf (ClickEventsChannel (snd (tryEnqueue_all (w\<lparr>ClickEventsChannel := make_chan C\<rparr>) es)))
       = take C es
   \<and> length (ch_buf (ClickEventsChannel
        (snd (tryEnqueue_all (w\<lparr>ClickEventsChannel := make_chan C\<rparr>) es)))) = min C (length es)
   \<and> logs (snd (tryEnqueue_all (w\<lparr>ClickEventsChannel := make_chan C\<rparr>) es)) =
       logs w @ map (\<lambda>e. LogChannelFull (ev_ShortCode e)) (drop C es)"
proof -
  have "\<not> ch_closed (ClickEventsChannel (w\<lparr>ClickEventsChannel := make_chan C\<rparr>))"
    by (simp add: make_chan_def)
  from tryEnqueue_all_open [OF this, of es] show ?thesis
    by (simp add: make_chan_def min.commute)
qed

subsection \<open>The redirect handler\<close>

lemma tryEnqueue_links [simp]: "links (snd (tryEnqueue w e)) = links w"
  by (simp add: tryEnqueue_def Let_def log_Printf_def)

lemma tryEnqueue_channel:
  "ClickEventsChannel (snd (tryEnqueue w e)) \<noteq> ClickEventsChannel w \<Longrightarrow>
   fst (tryEnqueue w e) = Sent \<and>
   ch_buf (ClickEventsChannel (snd (tryEnqueue w e))) = ch_buf (ClickEventsChannel w) @ [e]"
  by (auto simp: tryEnqueue_def Let_def log_Printf_def split: if_splits)

lemma LinkService_GetLinkByShortCode_Inr:
  assumes "fst (LinkService_GetLinkByShortCode w c) = Inr l"
  shows "l \<in> set (links (snd (LinkService_GetLinkByShortCode w c)))" and "ShortCode l = c"
proof -
  from assms have "fst (GormLinkRepository_GetLinkByShortCode w c) = Inr l"
    by (simp add: LinkService_GetLinkByShortCode_fst split: sum.splits)
  from GetLinkByShortCode_Inr [OF this]
  show "l \<in> set (links (snd (LinkService_GetLinkByShortCode w c)))" and "ShortCode l = c"
    by (simp_all add: LinkService_GetLinkByShortCode_snd)
qed

lemma LinkService_GetLinkByShortCode_channel [simp]:
  "ClickEventsChannel (snd (LinkService_GetLinkByShortCode w c)) = ClickEventsChannel w"
  by (simp add: LinkService_GetLinkByShortCode_snd)

text \<open>
  Claim C9. If the lookup of the short code fails, with "not found" or with any other
  error, the handler leaves the channel as it was and answers with a JSON error, never with
  a redirect. If the handler changes the channel, then the lookup returned a link that is in
  the table at that time, exactly one event was appended, it carries the ID of that link,
  and the answer is the redirect to the link's long URL.
\<close>

theorem RedirectHandler_enqueues_resolved_links_only:
  "(\<forall>err. fst (LinkService_GetLinkByShortCode w (param_shortCode c)) = Inl err \<longrightarrow>
      ClickEventsChannel (snd (RedirectHandler w c)) = ClickEventsChannel w
      \<and> (fst (RedirectHandler w c) = JSON 404 [(''error'', ''link not found'')]
         \<or> fst (RedirectHandler w c) = JSON 500 [(''error'', ''internal server error'')]))
   \<and> (ClickEventsChannel (snd (RedirectHandler w c)) \<noteq> ClickEventsChannel w \<longrightarrow>
      (\<exists>link ev. fst (LinkService_GetLinkByShortCode w (param_shortCode c)) = Inr link
         \<and> link \<in> set (links (snd (LinkService_GetLinkByShortCode w (param_shortCode c))))
         \<and> ShortCode link = param_shortCode c
         \<and> ev_LinkID ev = ID link
         \<and> ch_buf (ClickEventsChannel (snd (RedirectHandler w c))) =
             ch_buf (ClickEventsChannel w) @ [ev]
         \<and> fst (RedirectHandler w c) = Redirect 302 (LongURL link)))"
proof -
  let ?code = "param_shortCode c"
  obtain r w1 where l: "LinkService_GetLinkByShortCode w ?code = (r, w1)"
    by (cases "LinkService_GetLinkByShortCode w ?code")
  then have w1: "w1 = snd (LinkService_GetLinkByShortCode w ?code)" by simp
  show ?thesis
  proof (cases r)
    case (Inl err)
    with l show ?thesis
      using LinkService_GetLinkByShortCode_channel [of w ?code]
      by (simp add: RedirectHandler_def Let_def log_Printf_def)
  next
    case (Inr link)
    let ?ev = "\<lparr>ev_LinkID = ID link, ev_ShortCode = ?code, ev_Timestamp = time_Now w1,
                ev_UserAgent = header_User_Agent c, IP = ClientIP c\<rparr>"
    from Inr l have f: "fst (LinkService_GetLinkByShortCode w ?code) = Inr link" by simp
    have snd_eq: "snd (RedirectHandler w c) = snd (tryEnqueue w1 ?ev)"
      using l Inr by (simp add: RedirectHandler_def Let_def split_beta split: send_result.splits)
    have c1: "ClickEventsChannel w1 = ClickEventsChannel w"
      unfolding w1 by simp
    have "\<exists>link ev. fst (LinkService_GetLinkByShortCode w ?code) = Inr link
         \<and> link \<in> set (links (snd (LinkService_GetLinkByShortCode w ?code)))
         \<and> ShortCode link = ?code
         \<and> ev_LinkID ev = ID link
         \<and> ch_buf (ClickEventsChannel (snd (RedirectHandler w c))) =
             ch_buf (ClickEventsChannel w) @ [ev]
         \<and> fst (RedirectHandler w c) = Redirect 302 (LongURL link)"
      if ch: "ClickEventsChannel (snd (RedirectHandler w c)) \<noteq> ClickEventsChannel w"
    proof -
      from ch snd_eq c1 have "ClickEventsChannel (snd (tryEnqueue w1 ?ev)) \<noteq> ClickEventsChannel w1"
        by simp
      from tryEnqueue_channel [OF this] have s: "fst (tryEnqueue w1 ?ev) = Sent"
        and b: "ch_buf (ClickEventsChannel (snd (tryEnqueue w1 ?ev))) =
                ch_buf (ClickEventsChannel w1) @ [?ev]"
        by simp_all
      have resp: "fst (RedirectHandler w c) = Redirect 302 (LongURL link)"
        using l Inr s by (simp add: RedirectHandler_def Let_def split_beta)
      from LinkService_GetLinkByShortCode_Inr [OF f] b c1 snd_eq resp f
      show ?thesis
        by (intro exI [of _ link] exI [of _ ?ev]) simp
    qed
    with f show ?thesis by simp
  qed
qed

lemma lookup_missing:
  "fst (LinkService_GetLinkByShortCode quiet_world ''zzzzzz'') =
     Inl (Errorf ''erreur lors de la recuperation du lien: %w'' []
            (Errorf ''erreur lors de la recuperation du lien par shortCode '%s' : %w''
           [Arg_s ''zzzzzz'']
               ErrRecordNotFound))"
  by (simp add: LinkService_GetLinkByShortCode_def GormLinkRepository_GetLinkByShortCode_def
      db_First_link_def begin_statement_def quiet_world_def Let_def)

lemma redirect_existing:
  "RedirectHandler
     (quiet_world\<lparr>links := [\<lparr>ID = 1, ShortCode = ''abcdef'', LongURL = ''https://example.com'',
                                CreatedAt = 0\<rparr>]\<rparr>)
     \<lparr>param_shortCode = ''abcdef'', header_User_Agent = ''curl'', ClientIP = ''10.0.0.1''\<rparr> =
   (Redirect 302 ''https://example.com'',
    quiet_world\<lparr>links := [\<lparr>ID = 1, ShortCode = ''abcdef'', LongURL = ''https://example.com'',
                                CreatedAt = 0\<rparr>],
      sql_log := [SelectLinkByShortCode ''abcdef''],
      ClickEventsChannel := \<lparr>ch_buf = [\<lparr>ev_LinkID = 1, ev_ShortCode = ''abcdef'',
          ev_Timestamp = 0, ev_UserAgent = ''curl'', IP = ''10.0.0.1''\<rparr>], ch_cap = 2,
          ch_closed = False\<rparr>\<rparr>)"
  by (simp add: RedirectHandler_def LinkService_GetLinkByShortCode_def
      GormLinkRepository_GetLinkByShortCode_def db_First_link_def begin_statement_def
      quiet_world_def make_chan_def tryEnqueue_def time_Now_def Let_def)

text \<open>
  Two instances: a request for an unknown code in an empty database, and a request for
  the code of the one stored link.
\<close>

theorem RedirectHandler_enqueues_resolved_links_only_witness:
  "ClickEventsChannel
     (snd (RedirectHandler quiet_world
        \<lparr>param_shortCode = ''zzzzzz'', header_User_Agent = ''curl'', ClientIP = ''10.0.0.1''\<rparr>)) =
     ClickEventsChannel quiet_world
   \<and> fst (RedirectHandler quiet_world
        \<lparr>param_shortCode = ''zzzzzz'', header_User_Agent = ''curl'', ClientIP = ''10.0.0.1''\<rparr>) =
     JSON 404 [(''error'', ''link not found'')]
   \<and> (\<exists>link ev.
        link \<in> set [\<lparr>ID = 1, ShortCode = ''abcdef'', LongURL = ''https://example.com'',
                       CreatedAt = 0\<rparr>]
        \<and> ev_LinkID ev = ID link
        \<and> ch_buf (ClickEventsChannel (snd (RedirectHandler
             (quiet_world\<lparr>links := [\<lparr>ID = 1, ShortCode = ''abcdef'',
                 LongURL = ''https://example.com'', CreatedAt = 0\<rparr>]\<rparr>)
             \<lparr>param_shortCode = ''abcdef'', header_User_Agent = ''curl'',
               ClientIP = ''10.0.0.1''\<rparr>))) = [ev])"
proof -
  let ?miss = "\<lparr>param_shortCode = ''zzzzzz'', header_User_Agent = ''curl'',
                 ClientIP = ''10.0.0.1''\<rparr>"
  let ?hit = "\<lparr>param_shortCode = ''abcdef'', header_User_Agent = ''curl'',
                 ClientIP = ''10.0.0.1''\<rparr>"
  let ?w = "quiet_world\<lparr>links := [\<lparr>ID = 1, ShortCode = ''abcdef'',
                 LongURL = ''https://example.com'', CreatedAt = 0\<rparr>]\<rparr>"
  have m: "fst (LinkService_GetLinkByShortCode quiet_world (param_shortCode ?miss)) =
     Inl (Errorf ''erreur lors de la recuperation du lien: %w'' []
            (Errorf ''erreur lors de la recuperation du lien par shortCode '%s' : %w''
           [Arg_s ''zzzzzz'']
               ErrRecordNotFound))"
    using lookup_missing by simp
  have r404: "fst (RedirectHandler quiet_world ?miss) = JSON 404 [(''error'', ''link not found'')]"
    by (simp add: RedirectHandler_def Let_def split_beta lookup_missing)
  have ch: "ClickEventsChannel (snd (RedirectHandler ?w ?hit)) \<noteq> ClickEventsChannel ?w"
    by (subst redirect_existing) (simp add: quiet_world_def make_chan_def)
  have lk: "links (snd (LinkService_GetLinkByShortCode ?w (param_shortCode ?hit))) =
      [\<lparr>ID = 1, ShortCode = ''abcdef'', LongURL = ''https://example.com'', CreatedAt = 0\<rparr>]"
    by (simp add: LinkService_GetLinkByShortCode_snd begin_statement_links quiet_world_def)
  have b0: "ch_buf (ClickEventsChannel ?w) = []"
    by (simp add: quiet_world_def make_chan_def)
  from RedirectHandler_enqueues_resolved_links_only [of quiet_world ?miss] m
  have first: "ClickEventsChannel (snd (RedirectHandler quiet_world ?miss)) =
     ClickEventsChannel quiet_world"
    by blast
  from RedirectHandler_enqueues_resolved_links_only [of ?w ?hit] ch
  obtain link ev where
    "link \<in> set (links (snd (LinkService_GetLinkByShortCode ?w (param_shortCode ?hit))))"
    "ev_LinkID ev = ID link"
    "ch_buf (ClickEventsChannel (snd (RedirectHandler ?w ?hit))) =
       ch_buf (ClickEventsChannel ?w) @ [ev]"
    by blast
  with lk b0 have second: "\<exists>link ev.
        link \<in> set [\<lparr>ID = 1, ShortCode = ''abcdef'', LongURL = ''https://example.com'',
                       CreatedAt = 0\<rparr>]
        \<and> ev_LinkID ev = ID link
        \<and> ch_buf (ClickEventsChannel (snd (RedirectHandler ?w ?hit))) = [ev]"
    by (intro exI [of _ link] exI [of _ ev]) simp
  from first r404 second show ?thesis by blast
qed

section \<open>Properties of the worker pool\<close>

subsection \<open>Storing a click\<close>

lemma le_fold_max: "x \<in> set xs \<Longrightarrow> x \<le> fold max xs (a::nat)"
proof (induction xs arbitrary: a)
  case Nil
  then show ?case by simp
next
  case (Cons y ys)
  have mono: "b \<le> fold max zs (b::nat)" for b zs
    by (induction zs arbitrary: b) (auto intro: order_trans [OF max.cobounded2])
  from Cons show ?case
    by (auto intro: order_trans [OF max.cobounded1 mono])
qed

lemma next_click_id_fresh: "find (\<lambda>c. Click_ID c = next_click_id cs) cs = None"
proof -
  have "Click_ID c \<noteq> next_click_id cs" if "c \<in> set cs" for c
    using le_fold_max [of "Click_ID c" "map Click_ID cs" 0] that
    by (auto simp: next_click_id_def)
  then show ?thesis by (simp add: find_None_iff)
qed

lemma CreateClick_frame [simp]:
  "sql_log (snd (GormClickRepository_CreateClick w c)) = sql_log w @ [InsertClick c]"
  "env (snd (GormClickRepository_CreateClick w c)) = tl (env w)"
  "rand_pos (snd (GormClickRepository_CreateClick w c)) = rand_pos w"
  "logs (snd (GormClickRepository_CreateClick w c)) = logs w"
  "clock (snd (GormClickRepository_CreateClick w c)) = clock w"
  "ClickEventsChannel (snd (GormClickRepository_CreateClick w c)) = ClickEventsChannel w"
  "ctx_done (snd (GormClickRepository_CreateClick w c)) = ctx_done w"
  "workers (snd (GormClickRepository_CreateClick w c)) = workers w"
  by (simp_all add: GormClickRepository_CreateClick_def db_Create_click_def split_beta Let_def
      split: option.splits sum.splits)

lemma CreateClick_Inl:
  assumes "fst (GormClickRepository_CreateClick w c) = Inl err"
  shows "clicks (snd (GormClickRepository_CreateClick w c)) = clicks w"
  using assms
  by (auto simp: GormClickRepository_CreateClick_def db_Create_click_def split_beta Let_def
      split: option.splits sum.splits if_splits)

lemma CreateClick_quiet:
  assumes "\<not> statement_fails w" and "Click_ID c = 0"
  shows "\<exists>row. fst (GormClickRepository_CreateClick w c) = Inr row \<and> payload row = c
           \<and> clicks (snd (GormClickRepository_CreateClick w c)) = clicks w @ [row]"
proof -
  from assms(1) have n: "fst (begin_statement w (InsertClick c)) = None"
    by (simp add: begin_statement_None_iff)
  have cl: "clicks (snd (begin_statement w (InsertClick c))) = clicks w" by simp
  let ?row = "c\<lparr>Click_ID := next_click_id (clicks w)\<rparr>"
  have "fst (GormClickRepository_CreateClick w c) = Inr ?row
        \<and> clicks (snd (GormClickRepository_CreateClick w c)) = clicks w @ [?row]"
    using n cl assms(2) next_click_id_fresh [of "clicks w"]
    by (simp add: GormClickRepository_CreateClick_def db_Create_click_def split_beta Let_def
        split: option.splits)
  moreover have "payload ?row = c" using assms(2) by (simp add: payload_def)
  ultimately show ?thesis by blast
qed

subsection \<open>One step of a worker\<close>

lemma step_out_of_range:
  "length (workers w) \<le> g \<Longrightarrow> clickWorker_step w g pick = (NoStep, w)"
  by (simp add: clickWorker_step_def)

lemma step_Returned:
  "g < length (workers w) \<Longrightarrow> workers w ! g = (wid, Returned) \<Longrightarrow>
   clickWorker_step w g pick = (NoStep, w)"
  by (simp add: clickWorker_step_def)

lemma step_Spawned:
  "g < length (workers w) \<Longrightarrow> workers w ! g = (wid, Spawned) \<Longrightarrow>
   clickWorker_step w g pick =
     (Started, w\<lparr>logs := logs w @ [LogWorkerStarted wid],
                 workers := (workers w)[g := (wid, AtSelect)]\<rparr>)"
  by (simp add: clickWorker_step_def set_pc_def log_Printf_def)

lemma step_blocked:
  "g < length (workers w) \<Longrightarrow> workers w ! g = (wid, AtSelect) \<Longrightarrow> \<not> ctx_done w \<Longrightarrow>
   ch_buf (ClickEventsChannel w) = [] \<Longrightarrow> \<not> ch_closed (ClickEventsChannel w) \<Longrightarrow>
   clickWorker_step w g pick = (Blocked, w)"
  by (simp add: clickWorker_step_def Let_def)

lemma step_cancelled:
  "g < length (workers w) \<Longrightarrow> workers w ! g = (wid, AtSelect) \<Longrightarrow> ctx_done w \<Longrightarrow>
   pick \<or> (ch_buf (ClickEventsChannel w) = [] \<and> \<not> ch_closed (ClickEventsChannel w)) \<Longrightarrow>
   clickWorker_step w g pick =
     (Cancelled, w\<lparr>logs := logs w @ [LogWorkerStopped wid],
                   workers := (workers w)[g := (wid, Returned)]\<rparr>)"
  by (auto simp: clickWorker_step_def Let_def set_pc_def log_Printf_def)

lemma step_closed:
  "g < length (workers w) \<Longrightarrow> workers w ! g = (wid, AtSelect) \<Longrightarrow> \<not> (ctx_done w \<and> pick) \<Longrightarrow>
   ch_buf (ClickEventsChannel w) = [] \<Longrightarrow> ch_closed (ClickEventsChannel w) \<Longrightarrow>
   clickWorker_step w g pick =
     (ChannelClosed, w\<lparr>logs := logs w @ [LogWorkerStopped wid],
                       workers := (workers w)[g := (wid, Returned)]\<rparr>)"
  by (auto simp: clickWorker_step_def Let_def set_pc_def log_Printf_def)

lemma step_received:
  "g < length (workers w) \<Longrightarrow> workers w ! g = (wid, AtSelect) \<Longrightarrow> \<not> (ctx_done w \<and> pick) \<Longrightarrow>
   ch_buf (ClickEventsChannel w) = ev # rest \<Longrightarrow>
   clickWorker_step w g pick =
     (Received ev,
      w\<lparr>ClickEventsChannel := (ClickEventsChannel w)\<lparr>ch_buf := rest\<rparr>,
        workers := (workers w)[g := (wid, Persisting ev)]\<rparr>)"
  by (auto simp: clickWorker_step_def Let_def set_pc_def log_Printf_def)

lemma step_persist_failed:
  "g < length (workers w) \<Longrightarrow> workers w ! g = (wid, Persisting ev) \<Longrightarrow>
   fst (GormClickRepository_CreateClick w (click_of_event ev)) = Inl err \<Longrightarrow>
   clickWorker_step w g pick =
     (CreateClickCalled (click_of_event ev) (Some err),
      (snd (GormClickRepository_CreateClick w (click_of_event ev)))
        \<lparr>logs := logs w @ [LogPersistFailed wid (ev_LinkID ev) err],
         workers := (workers w)[g := (wid, AtSelect)]\<rparr>)"
  by (simp add: clickWorker_step_def Let_def set_pc_def log_Printf_def split_beta)

lemma step_persisted:
  "g < length (workers w) \<Longrightarrow> workers w ! g = (wid, Persisting ev) \<Longrightarrow>
   fst (GormClickRepository_CreateClick w (click_of_event ev)) = Inr row \<Longrightarrow>
   clickWorker_step w g pick =
     (CreateClickCalled (click_of_event ev) None,
      (snd (GormClickRepository_CreateClick w (click_of_event ev)))
        \<lparr>logs := logs w @ [LogPersisted wid (ev_LinkID ev)],
         workers := (workers w)[g := (wid, AtSelect)]\<rparr>)"
  by (simp add: clickWorker_step_def Let_def set_pc_def log_Printf_def split_beta)

text \<open>The cases of a step, for case analysis.\<close>

lemma step_cases [case_names idle started blocked cancelled closed received failed persisted]:
  obtains
    (idle) "status_of w g = Stopped" "clickWorker_step w g pick = (NoStep, w)"
  | (started) wid where "g < length (workers w)" "workers w ! g = (wid, Spawned)"
      "clickWorker_step w g pick =
         (Started, w\<lparr>logs := logs w @ [LogWorkerStarted wid],
                     workers := (workers w)[g := (wid, AtSelect)]\<rparr>)"
  | (blocked) wid where "g < length (workers w)" "workers w ! g = (wid, AtSelect)"
      "\<not> ctx_done w" "ch_buf (ClickEventsChannel w) = []" "\<not> ch_closed (ClickEventsChannel w)"
      "clickWorker_step w g pick = (Blocked, w)"
  | (cancelled) wid where "g < length (workers w)" "workers w ! g = (wid, AtSelect)"
      "ctx_done w"
      "pick \<or> (ch_buf (ClickEventsChannel w) = [] \<and> \<not> ch_closed (ClickEventsChannel w))"
      "clickWorker_step w g pick =
         (Cancelled, w\<lparr>logs := logs w @ [LogWorkerStopped wid],
                       workers := (workers w)[g := (wid, Returned)]\<rparr>)"
  | (closed) wid where "g < length (workers w)" "workers w ! g = (wid, AtSelect)"
      "\<not> (ctx_done w \<and> pick)" "ch_buf (ClickEventsChannel w) = []"
      "ch_closed (ClickEventsChannel w)"
      "clickWorker_step w g pick =
         (ChannelClosed, w\<lparr>logs := logs w @ [LogWorkerStopped wid],
                           workers := (workers w)[g := (wid, Returned)]\<rparr>)"
  | (received) wid ev rest where "g < length (workers w)" "workers w ! g = (wid, AtSelect)"
      "\<not> (ctx_done w \<and> pick)" "ch_buf (ClickEventsChannel w) = ev # rest"
      "clickWorker_step w g pick =
         (Received ev,
          w\<lparr>ClickEventsChannel := (ClickEventsChannel w)\<lparr>ch_buf := rest\<rparr>,
            workers := (workers w)[g := (wid, Persisting ev)]\<rparr>)"
  | (failed) wid ev err where "g < length (workers w)" "workers w ! g = (wid, Persisting ev)"
      "fst (GormClickRepository_CreateClick w (click_of_event ev)) = Inl err"
      "clickWorker_step w g pick =
         (CreateClickCalled (click_of_event ev) (Some err),
          (snd (GormClickRepository_CreateClick w (click_of_event ev)))
            \<lparr>logs := logs w @ [LogPersistFailed wid (ev_LinkID ev) err],
             workers := (workers w)[g := (wid, AtSelect)]\<rparr>)"
  | (persisted) wid ev row where "g < length (workers w)" "workers w ! g = (wid, Persisting ev)"
      "fst (GormClickRepository_CreateClick w (click_of_event ev)) = Inr row"
      "clickWorker_step w g pick =
         (CreateClickCalled (click_of_event ev) None,
          (snd (GormClickRepository_CreateClick w (click_of_event ev)))
            \<lparr>logs := logs w @ [LogPersisted wid (ev_LinkID ev)],
             workers := (workers w)[g := (wid, AtSelect)]\<rparr>)"
proof (cases "g < length (workers w)")
  case False
  then have "status_of w g = Stopped" by (simp add: status_of_def)
  with False idle show ?thesis by (simp add: step_out_of_range)
next
  case True
  obtain wid p where wp: "workers w ! g = (wid, p)" by (cases "workers w ! g")
  show ?thesis
  proof (cases p)
    case Spawned
    with True wp started show ?thesis by (simp add: step_Spawned)
  next
    case Returned
    with True wp have "status_of w g = Stopped" by (simp add: status_of_def)
    with True wp Returned idle show ?thesis by (simp add: step_Returned)
  next
    case (Persisting ev)
    show ?thesis
    proof (cases "fst (GormClickRepository_CreateClick w (click_of_event ev))")
      case (Inl err)
      with True wp Persisting failed show ?thesis by (simp add: step_persist_failed)
    next
      case (Inr row)
      with True wp Persisting persisted show ?thesis by (simp add: step_persisted)
    qed
  next
    case AtSelect
    with wp have at: "workers w ! g = (wid, AtSelect)" by simp
    show ?thesis
    proof (cases "ctx_done w \<and>
        (pick \<or> (ch_buf (ClickEventsChannel w) = [] \<and> \<not> ch_closed (ClickEventsChannel w)))")
      case True
      with \<open>g < length (workers w)\<close> at cancelled show ?thesis by (simp add: step_cancelled)
    next
      case nc: False
      show ?thesis
      proof (cases "ch_buf (ClickEventsChannel w)")
        case (Cons ev rest)
        with nc have "\<not> (ctx_done w \<and> pick)" by auto
        with True at Cons received show ?thesis by (simp add: step_received)
      next
        case Nil
        show ?thesis
        proof (cases "ch_closed (ClickEventsChannel w)")
          case c: True
          with nc Nil have "\<not> (ctx_done w \<and> pick)" by auto
          with True at Nil c closed show ?thesis by (simp add: step_closed)
        next
          case c: False
          with nc Nil have "\<not> ctx_done w" by auto
          with True at Nil c blocked show ?thesis by (simp add: step_blocked)
        qed
      qed
    qed
  qed
qed

lemma step_workers:
  "\<exists>p. workers (snd (clickWorker_step w g pick)) = (workers w)[g := (fst (workers w ! g), p)]"
proof (cases rule: step_cases [of w g pick])
  case idle
  have "workers w = (workers w)[g := (fst (workers w ! g), snd (workers w ! g))]" by simp
  with idle show ?thesis by (metis snd_conv)
next
  case (blocked wid)
  have "workers w = (workers w)[g := (fst (workers w ! g), snd (workers w ! g))]" by simp
  with blocked show ?thesis by (metis snd_conv)
qed (auto intro: exI)

lemma step_length [simp]:
  "length (workers (snd (clickWorker_step w g pick))) = length (workers w)"
  using step_workers [of w g pick] by (auto simp del: list_update_id)

lemma step_other:
  "g' \<noteq> g \<Longrightarrow> workers (snd (clickWorker_step w g' pick)) ! g = workers w ! g"
  using step_workers [of w g' pick] by auto

lemma step_keeps_Stopped:
  "status_of w g = Stopped \<Longrightarrow> status_of (snd (clickWorker_step w g' pick)) g = Stopped"
proof (cases "g' = g")
  case True
  assume "status_of w g = Stopped"
  with True show ?thesis
    by (cases rule: step_cases [of w g pick]) (auto simp: status_of_def)
next
  case False
  assume "status_of w g = Stopped"
  with False show ?thesis
    by (auto simp: status_of_def step_other split: if_splits)
qed

lemma step_Stopped_NoStep:
  "status_of w g = Stopped \<Longrightarrow> clickWorker_step w g pick = (NoStep, w)"
  by (cases rule: step_cases [of w g pick]) (auto simp: status_of_def)

lemma run_Stopped:
  "status_of w g = Stopped \<Longrightarrow>
   status_of (snd (run w sched)) g = Stopped \<and>
   list_all (\<lambda>a. a = NoStep) (actions_of g (fst (run w sched)))"
proof (induction sched arbitrary: w)
  case Nil
  then show ?case by (simp add: actions_of_def)
next
  case (Cons x sched)
  obtain g' pick where x: "x = (g', pick)" by (cases x)
  let ?w1 = "snd (clickWorker_step w g' pick)"
  from Cons.prems have st: "status_of ?w1 g = Stopped" by (rule step_keeps_Stopped)
  have a: "g' = g \<Longrightarrow> fst (clickWorker_step w g' pick) = NoStep"
    using Cons.prems by (simp add: step_Stopped_NoStep)
  from Cons.IH [OF st] a x show ?case
    by (auto simp: split_beta actions_of_def)
qed

lemma NoStep_calls: "list_all (\<lambda>a. a = NoStep) acts \<Longrightarrow> createClick_calls acts = []"
  by (induction acts) auto

subsection \<open>The two states of a worker\<close>

text \<open>
  Claim C5. A running worker is stopped after a step exactly when that step took the
  \<^verbatim>\<open>ctx.Done()\<close> case of the \<^verbatim>\<open>select\<close> or found the channel closed and drained. The
  first happens exactly at the \<^verbatim>\<open>select\<close> with the context cancelled, when the
  \<^verbatim>\<open>select\<close> picks that case (it must when nothing can be received); the second exactly
  at the \<^verbatim>\<open>select\<close> with the channel closed and empty, when the cancellation is not
  picked. A stopped worker is stopped for good: its step does nothing, and in every run it
  stays stopped, each of its steps is empty, and it makes no call of \<^verbatim>\<open>CreateClick\<close>.
\<close>

theorem worker_stops_once:
  "(status_of w g = Running \<longrightarrow>
      (status_of (snd (clickWorker_step w g pick)) g = Stopped \<longleftrightarrow>
         fst (clickWorker_step w g pick) = Cancelled
         \<or> fst (clickWorker_step w g pick) = ChannelClosed)
      \<and> (fst (clickWorker_step w g pick) = Cancelled \<longleftrightarrow>
           snd (workers w ! g) = AtSelect \<and> ctx_done w
           \<and> (pick \<or> (ch_buf (ClickEventsChannel w) = []
                        \<and> \<not> ch_closed (ClickEventsChannel w))))
      \<and> (fst (clickWorker_step w g pick) = ChannelClosed \<longleftrightarrow>
           snd (workers w ! g) = AtSelect \<and> \<not> (ctx_done w \<and> pick)
           \<and> ch_buf (ClickEventsChannel w) = [] \<and> ch_closed (ClickEventsChannel w)))
   \<and> (status_of w g = Stopped \<longrightarrow>
        clickWorker_step w g pick = (NoStep, w)
        \<and> status_of (snd (run w sched)) g = Stopped
        \<and> list_all (\<lambda>a. a = NoStep) (actions_of g (fst (run w sched)))
        \<and> createClick_calls (actions_of g (fst (run w sched))) = [])"
proof -
  have running: "(status_of (snd (clickWorker_step w g pick)) g = Stopped \<longleftrightarrow>
         fst (clickWorker_step w g pick) = Cancelled
         \<or> fst (clickWorker_step w g pick) = ChannelClosed)
      \<and> (fst (clickWorker_step w g pick) = Cancelled \<longleftrightarrow>
           snd (workers w ! g) = AtSelect \<and> ctx_done w
           \<and> (pick \<or> (ch_buf (ClickEventsChannel w) = []
                        \<and> \<not> ch_closed (ClickEventsChannel w))))
      \<and> (fst (clickWorker_step w g pick) = ChannelClosed \<longleftrightarrow>
           snd (workers w ! g) = AtSelect \<and> \<not> (ctx_done w \<and> pick)
           \<and> ch_buf (ClickEventsChannel w) = [] \<and> ch_closed (ClickEventsChannel w))"
    if "status_of w g = Running"
    using that
    by (cases rule: step_cases [of w g pick]) (auto simp: status_of_def)
  have stopped: "clickWorker_step w g pick = (NoStep, w)
        \<and> status_of (snd (run w sched)) g = Stopped
        \<and> list_all (\<lambda>a. a = NoStep) (actions_of g (fst (run w sched)))
        \<and> createClick_calls (actions_of g (fst (run w sched))) = []"
    if "status_of w g = Stopped"
    using run_Stopped [OF that, of sched] step_Stopped_NoStep [OF that, of pick]
    by (simp add: NoStep_calls)
  from running stopped show ?thesis by blast
qed

text \<open>
  Two instances: a worker at its \<^verbatim>\<open>select\<close> that observes the cancellation of the
  context, and a returned worker that is scheduled twice more.
\<close>

theorem worker_stops_once_witness:
  "status_of (cancel (quiet_world\<lparr>workers := [(0, AtSelect)]\<rparr>)) 0 = Running
   \<and> fst (clickWorker_step (cancel (quiet_world\<lparr>workers := [(0, AtSelect)]\<rparr>)) 0 True)
       = Cancelled
   \<and> status_of
        (snd (clickWorker_step (cancel (quiet_world\<lparr>workers := [(0, AtSelect)]\<rparr>)) 0 True))
        0 = Stopped
   \<and> status_of (quiet_world\<lparr>workers := [(0, Returned)], ctx_done := True\<rparr>) 0 = Stopped
   \<and> createClick_calls (actions_of 0
        (fst (run (quiet_world\<lparr>workers := [(0, Returned)], ctx_done := True\<rparr>)
                [(0, False), (0, True)]))) = []"
proof -
  let ?w = "cancel (quiet_world\<lparr>workers := [(0, AtSelect)]\<rparr>)"
  let ?s = "quiet_world\<lparr>workers := [(0, Returned)], ctx_done := True\<rparr>"
  have r: "status_of ?w 0 = Running" by (simp add: status_of_def cancel_def)
  have c: "snd (workers ?w ! 0) = AtSelect \<and> ctx_done ?w" by (simp add: cancel_def)
  have s: "status_of ?s 0 = Stopped" by (simp add: status_of_def)
  from worker_stops_once [of ?w 0 True] r c
  have "fst (clickWorker_step ?w 0 True) = Cancelled
        \<and> status_of (snd (clickWorker_step ?w 0 True)) 0 = Stopped"
    by blast
  moreover from worker_stops_once [of ?s 0 True "[(0, False), (0, True)]"] s
  have "createClick_calls (actions_of 0 (fst (run ?s [(0, False), (0, True)]))) = []"
    by blast
  ultimately show ?thesis using r s by blast
qed

subsection \<open>Conservation of events\<close>

lemma held_update:
  "g < length ws \<Longrightarrow>
   mset (held (ws[g := (wid, p)])) + mset (holding (snd (ws ! g))) =
   mset (held ws) + mset (holding p)"
proof (induction ws arbitrary: g)
  case Nil
  then show ?case by simp
next
  case (Cons x ws)
  show ?case
  proof (cases g)
    case 0
    then show ?thesis by (simp add: held_def)
  next
    case (Suc k)
    with Cons.prems have "k < length ws" by simp
    from Cons.IH [OF this] Suc show ?thesis
      by (simp add: held_def)
  qed
qed

lemma pending_update:
  "g < length (workers w) \<Longrightarrow> workers w' = (workers w)[g := (wid, p)] \<Longrightarrow>
   pending w' + image_mset click_of_event (mset (holding (snd (workers w ! g)))
                                           + mset (ch_buf (ClickEventsChannel w))) =
   pending w + image_mset click_of_event (mset (holding p)
                                           + mset (ch_buf (ClickEventsChannel w')))"
proof -
  assume g: "g < length (workers w)" and w': "workers w' = (workers w)[g := (wid, p)]"
  have "image_mset click_of_event (mset (held (workers w')) + mset (holding (snd (workers w ! g))))
      = image_mset click_of_event (mset (held (workers w)) + mset (holding p))"
    using held_update [OF g, of wid p] w' by simp
  then show ?thesis
    by (simp add: pending_def ac_simps)
qed

text \<open>
  A step moves an event from the channel into a worker's hands, or from its hands into a
  call of \<open>CreateClick\<close>; it neither loses nor duplicates one.
\<close>

lemma step_conservation:
  "mset (createClick_calls [fst (clickWorker_step w g pick)])
     + pending (snd (clickWorker_step w g pick)) = pending w"
proof (cases rule: step_cases [of w g pick])
  case idle
  then show ?thesis by simp
next
  case (started wid)
  from pending_update [OF started(1), of "snd (clickWorker_step w g pick)" wid AtSelect] started
  show ?thesis by simp
next
  case (blocked wid)
  then show ?thesis by simp
next
  case (cancelled wid)
  from pending_update [OF cancelled(1), of "snd (clickWorker_step w g pick)" wid Returned]
    cancelled
  show ?thesis by simp
next
  case (closed wid)
  from pending_update [OF closed(1), of "snd (clickWorker_step w g pick)" wid Returned] closed
  show ?thesis by simp
next
  case (received wid ev rest)
  from pending_update [OF received(1), of "snd (clickWorker_step w g pick)" wid "Persisting ev"]
    received
  show ?thesis by simp
next
  case (failed wid ev err)
  from pending_update [OF failed(1), of "snd (clickWorker_step w g pick)" wid AtSelect] failed
  show ?thesis by simp
next
  case (persisted wid ev row)
  from pending_update [OF persisted(1), of "snd (clickWorker_step w g pick)" wid AtSelect]
    persisted
  show ?thesis by simp
qed

lemma createClick_calls_Cons:
  "mset (createClick_calls (a # acts)) = mset (createClick_calls [a]) + mset (createClick_calls acts)"
  by (cases a) simp_all

lemma run_conservation:
  "mset (createClick_calls (map snd (fst (run w sched)))) + pending (snd (run w sched)) = pending w"
proof (induction sched arbitrary: w)
  case Nil
  then show ?case by simp
next
  case (Cons x sched)
  obtain g pick where x: "x = (g, pick)" by (cases x)
  let ?w1 = "snd (clickWorker_step w g pick)"
  have "mset (createClick_calls (map snd (fst (run w (x # sched))))) + pending (snd (run w (x # sched)))
      = mset (createClick_calls [fst (clickWorker_step w g pick)])
        + (mset (createClick_calls (map snd (fst (run ?w1 sched)))) + pending (snd (run ?w1 sched)))"
    using createClick_calls_Cons [of "fst (clickWorker_step w g pick)" "map snd (fst (run ?w1 sched))"]
    by (simp add: x split_beta)
  also have "\<dots> = mset (createClick_calls [fst (clickWorker_step w g pick)]) + pending ?w1"
    by (simp add: Cons.IH)
  also have "\<dots> = pending w" by (rule step_conservation)
  finally show ?case .
qed

subsection \<open>A failed write\<close>

text \<open>
  Claim C6. When the \<^verbatim>\<open>CreateClick\<close> call of a worker fails, the step logs the error
  with the worker's id and the link's ID, stores nothing, puts nothing back into the
  channel, and leaves the worker running at its \<^verbatim>\<open>select\<close>, holding nothing. If the
  channel holds a next event and the context is not cancelled, the worker's next step
  receives that event and the step after it calls \<^verbatim>\<open>CreateClick\<close> for it. In every run
  the clicks for which \<^verbatim>\<open>CreateClick\<close> is called, together with the events still held or
  queued, are exactly the events held or queued at the start: no event gets a second call.
\<close>

theorem failed_persist_is_logged_and_dropped:
  assumes "g < length (workers w)" and "workers w ! g = (wid, Persisting ev)"
    and "fst (GormClickRepository_CreateClick w (click_of_event ev)) = Inl err"
  shows "fst (clickWorker_step w g pick) = CreateClickCalled (click_of_event ev) (Some err)
    \<and> logs (snd (clickWorker_step w g pick)) =
        logs w @ [LogPersistFailed wid (ev_LinkID ev) err]
    \<and> clicks (snd (clickWorker_step w g pick)) = clicks w
    \<and> ClickEventsChannel (snd (clickWorker_step w g pick)) = ClickEventsChannel w
    \<and> workers (snd (clickWorker_step w g pick)) = (workers w)[g := (wid, AtSelect)]
    \<and> status_of (snd (clickWorker_step w g pick)) g = Running
    \<and> (\<forall>ev2 rest. ch_buf (ClickEventsChannel w) = ev2 # rest \<and> \<not> ctx_done w \<longrightarrow>
          fst (clickWorker_step (snd (clickWorker_step w g pick)) g pick') = Received ev2
          \<and> (\<exists>r. fst (clickWorker_step
                 (snd (clickWorker_step (snd (clickWorker_step w g pick)) g pick')) g pick'') =
               CreateClickCalled (click_of_event ev2) r))
    \<and> mset (createClick_calls (map snd (fst (run w sched)))) + pending (snd (run w sched)) =
        pending w"
proof -
  let ?W = "snd (clickWorker_step w g pick)"
  note s = step_persist_failed [OF assms, of pick]
  have a: "fst (clickWorker_step w g pick) = CreateClickCalled (click_of_event ev) (Some err)"
    and l: "logs ?W = logs w @ [LogPersistFailed wid (ev_LinkID ev) err]"
    and ch: "ClickEventsChannel ?W = ClickEventsChannel w"
    and ws: "workers ?W = (workers w)[g := (wid, AtSelect)]"
    and cd: "ctx_done ?W = ctx_done w"
    by (simp_all add: s)
  have cl: "clicks ?W = clicks w"
    using CreateClick_Inl [OF assms(3)] by (simp add: s)
  have g': "g < length (workers ?W)" using assms(1) by (simp add: ws)
  have at: "workers ?W ! g = (wid, AtSelect)" using assms(1) by (simp add: ws)
  then have st: "status_of ?W g = Running" using g' by (simp add: status_of_def)
  have nxt: "fst (clickWorker_step ?W g pick') = Received ev2
          \<and> (\<exists>r. fst (clickWorker_step (snd (clickWorker_step ?W g pick')) g pick'') =
               CreateClickCalled (click_of_event ev2) r)"
    if b: "ch_buf (ClickEventsChannel w) = ev2 # rest" and nd: "\<not> ctx_done w" for ev2 rest
  proof -
    have nd': "\<not> (ctx_done ?W \<and> pick')" using nd cd by simp
    have b': "ch_buf (ClickEventsChannel ?W) = ev2 # rest" using b ch by simp
    note r = step_received [OF g' at nd' b']
    let ?W2 = "snd (clickWorker_step ?W g pick')"
    have g2: "g < length (workers ?W2)" using g' by simp
    have p2: "workers ?W2 ! g = (wid, Persisting ev2)" using g' by (simp add: r)
    have "\<exists>r. fst (clickWorker_step ?W2 g pick'') = CreateClickCalled (click_of_event ev2) r"
    proof (cases "fst (GormClickRepository_CreateClick ?W2 (click_of_event ev2))")
      case (Inl e)
      from step_persist_failed [OF g2 p2 Inl, of pick''] show ?thesis by simp
    next
      case (Inr row)
      from step_persisted [OF g2 p2 Inr, of pick''] show ?thesis by simp
    qed
    with r show ?thesis by simp
  qed
  from a l cl ch ws st nxt run_conservation [of w sched] show ?thesis by blast
qed

lemma failing_write:
  "fst (GormClickRepository_CreateClick
          (quiet_world\<lparr>workers := [(0, Persisting event_A)],
             env := [Fault (ErrDriver ''database is locked'')],
             ClickEventsChannel := \<lparr>ch_buf = [event_B], ch_cap = 2, ch_closed = False\<rparr>\<rparr>)
          (click_of_event event_A)) =
   Inl (Errorf ''erreur lors de la creation du clic : %w'' [] (ErrDriver ''database is locked''))"
  by (simp add: GormClickRepository_CreateClick_def db_Create_click_def begin_statement_def
      quiet_world_def Let_def)

lemma drained_after_failure:
  "map payload (clicks (snd (run
      (quiet_world\<lparr>workers := [(0, Persisting event_A)],
         env := [Fault (ErrDriver ''database is locked'')],
         ClickEventsChannel := \<lparr>ch_buf = [event_B], ch_cap = 2, ch_closed = False\<rparr>\<rparr>)
      [(0, False), (0, False), (0, False)]))) = [click_of_event event_B]"
  by code_simp

text \<open>
  An instance: the database is locked when worker 0 writes the click of \<open>event_A\<close>, and
  \<open>event_B\<close> waits in the channel. After three steps the table holds the click of
  \<open>event_B\<close> alone.
\<close>

theorem failed_persist_is_logged_and_dropped_witness:
  "fst (clickWorker_step
          (quiet_world\<lparr>workers := [(0, Persisting event_A)],
             env := [Fault (ErrDriver ''database is locked'')],
             ClickEventsChannel := \<lparr>ch_buf = [event_B], ch_cap = 2, ch_closed = False\<rparr>\<rparr>)
          0 False) =
     CreateClickCalled (click_of_event event_A)
       (Some (Errorf ''erreur lors de la creation du clic : %w'' [] (ErrDriver ''database is locked'')))
   \<and> logs (snd (clickWorker_step
          (quiet_world\<lparr>workers := [(0, Persisting event_A)],
             env := [Fault (ErrDriver ''database is locked'')],
             ClickEventsChannel := \<lparr>ch_buf = [event_B], ch_cap = 2, ch_closed = False\<rparr>\<rparr>)
          0 False)) =
     [LogPersistFailed 0 1
        (Errorf ''erreur lors de la creation du clic : %w'' [] (ErrDriver ''database is locked''))]
   \<and> clicks (snd (clickWorker_step
          (quiet_world\<lparr>workers := [(0, Persisting event_A)],
             env := [Fault (ErrDriver ''database is locked'')],
             ClickEventsChannel := \<lparr>ch_buf = [event_B], ch_cap = 2, ch_closed = False\<rparr>\<rparr>)
          0 False)) = []
   \<and> fst (clickWorker_step (snd (clickWorker_step
          (quiet_world\<lparr>workers := [(0, Persisting event_A)],
             env := [Fault (ErrDriver ''database is locked'')],
             ClickEventsChannel := \<lparr>ch_buf = [event_B], ch_cap = 2, ch_closed = False\<rparr>\<rparr>)
          0 False)) 0 False) = Received event_B
   \<and> map payload (clicks (snd (run
          (quiet_world\<lparr>workers := [(0, Persisting event_A)],
             env := [Fault (ErrDriver ''database is locked'')],
             ClickEventsChannel := \<lparr>ch_buf = [event_B], ch_cap = 2, ch_closed = False\<rparr>\<rparr>)
          [(0, False), (0, False), (0, False)]))) = [click_of_event event_B]"
proof -
  let ?w = "quiet_world\<lparr>workers := [(0, Persisting event_A)],
             env := [Fault (ErrDriver ''database is locked'')],
             ClickEventsChannel := \<lparr>ch_buf = [event_B], ch_cap = 2, ch_closed = False\<rparr>\<rparr>"
  have g: "0 < length (workers ?w)" by simp
  have p: "workers ?w ! 0 = (0, Persisting event_A)" by simp
  have b: "ch_buf (ClickEventsChannel ?w) = event_B # [] \<and> \<not> ctx_done ?w"
    by (simp add: quiet_world_def)
  have e: "ev_LinkID event_A = 1" and c: "clicks ?w = []" and l: "logs ?w = []"
    by (simp_all add: event_A_def quiet_world_def)
  from failed_persist_is_logged_and_dropped [OF g p failing_write, of False False False "[]"] b
  have "fst (clickWorker_step ?w 0 False) =
     CreateClickCalled (click_of_event event_A)
       (Some (Errorf ''erreur lors de la creation du clic : %w'' [] (ErrDriver ''database is locked'')))
   \<and> logs (snd (clickWorker_step ?w 0 False)) =
     logs ?w @ [LogPersistFailed 0 (ev_LinkID event_A)
        (Errorf ''erreur lors de la creation du clic : %w'' [] (ErrDriver ''database is locked''))]
   \<and> clicks (snd (clickWorker_step ?w 0 False)) = clicks ?w
   \<and> fst (clickWorker_step (snd (clickWorker_step ?w 0 False)) 0 False) = Received event_B"
    by blast
  with e c l drained_after_failure show ?thesis by simp
qed

subsection \<open>Draining the channel\<close>

lemma never_fails_quiet: "never_fails (env w) \<Longrightarrow> \<not> statement_fails w"
  by (auto simp: never_fails_def statement_fails_def split: list.splits env_event.splits)

lemma never_fails_tl: "never_fails es \<Longrightarrow> never_fails (tl es)"
  by (cases es) (simp_all add: never_fails_def)

lemma click_of_event_ID [simp]: "Click_ID (click_of_event ev) = 0"
  by (simp add: click_of_event_def)

lemma list_all_update:
  "list_all P xs \<Longrightarrow> P y \<Longrightarrow> list_all P (xs[g := y])"
  by (induction xs arbitrary: g) (auto split: nat.splits)

lemma cost_update:
  "g < length ws \<Longrightarrow>
   sum_list (map (\<lambda>x. cost (snd x)) (ws[g := (wid, p)])) + cost (snd (ws ! g)) =
   sum_list (map (\<lambda>x. cost (snd x)) ws) + cost p"
proof (induction ws arbitrary: g)
  case Nil
  then show ?case by simp
next
  case (Cons x ws)
  show ?case
  proof (cases g)
    case 0
    then show ?thesis by simp
  next
    case (Suc k)
    with Cons.prems have "k < length ws" by simp
    from Cons.IH [OF this] Suc show ?thesis by simp
  qed
qed

text \<open>
  In a pool that is left to drain, every step keeps the pool so, adds to the table exactly
  the click of the call it makes, and does not raise the work that is left.
\<close>

lemma pool_step:
  assumes "pool_ok w"
  shows "pool_ok (snd (clickWorker_step w g pick))"
    and "stored (snd (clickWorker_step w g pick)) =
           stored w + mset (createClick_calls [fst (clickWorker_step w g pick)])"
proof -
  let ?s = "clickWorker_step w g pick"
  from assms have nd: "\<not> ctx_done w" and nc: "\<not> ch_closed (ClickEventsChannel w)"
    and nf: "never_fails (env w)" and ne: "workers w \<noteq> []"
    and nr: "list_all (\<lambda>x. snd x \<noteq> Returned) (workers w)"
    by (simp_all add: pool_ok_def)
  have "pool_ok (snd ?s) \<and> stored (snd ?s) = stored w + mset (createClick_calls [fst ?s])"
  proof (cases rule: step_cases [of w g pick])
    case idle
    with assms show ?thesis by simp
  next
    case (started wid)
    with nd nc nf ne nr show ?thesis
      by (simp add: pool_ok_def stored_def list_all_update)
  next
    case (blocked wid)
    with assms show ?thesis by simp
  next
    case (cancelled wid)
    with nd show ?thesis by simp
  next
    case (closed wid)
    with nc show ?thesis by simp
  next
    case (received wid ev rest)
    with nd nc nf ne nr show ?thesis
      by (simp add: pool_ok_def stored_def list_all_update)
  next
    case (failed wid ev err)
    from CreateClick_quiet [OF never_fails_quiet [OF nf], of "click_of_event ev"] failed(3)
    show ?thesis by simp
  next
    case (persisted wid ev row)
    from CreateClick_quiet [OF never_fails_quiet [OF nf], of "click_of_event ev"] persisted(3)
    have row: "payload row = click_of_event ev"
      and cl: "clicks (snd (GormClickRepository_CreateClick w (click_of_event ev))) =
               clicks w @ [row]"
      by auto
    from persisted(4) nd nc ne nr never_fails_tl [OF nf] row cl show ?thesis
      by (simp add: pool_ok_def stored_def list_all_update)
  qed
  then show "pool_ok (snd ?s)"
    and "stored (snd ?s) = stored w + mset (createClick_calls [fst ?s])"
    by simp_all
qed

lemma pool_run:
  assumes "pool_ok w"
  shows "pool_ok (snd (run w sched)) \<and>
         stored (snd (run w sched)) + pending (snd (run w sched)) = stored w + pending w"
  using assms
proof (induction sched arbitrary: w)
  case Nil
  then show ?case by simp
next
  case (Cons x sched)
  obtain g pick where x: "x = (g, pick)" by (cases x)
  let ?w1 = "snd (clickWorker_step w g pick)"
  note st = pool_step [OF Cons.prems, of g pick]
  from Cons.IH [OF st(1)] have ok: "pool_ok (snd (run ?w1 sched))"
    and eq: "stored (snd (run ?w1 sched)) + pending (snd (run ?w1 sched)) = stored ?w1 + pending ?w1"
    by simp_all
  have "stored ?w1 + pending ?w1 = stored w + pending w"
    using st(2) step_conservation [of w g pick] by (simp add: ac_simps)
  with ok eq x show ?case by (simp add: split_beta)
qed

lemma run_append:
  "snd (run w (a @ b)) = snd (run (snd (run w a)) b)"
  by (induction a arbitrary: w) (auto simp: split_beta)

lemma quiescent_pending: "quiescent w \<Longrightarrow> pending w = {#}"
  by (simp add: quiescent_def pending_def)

lemma held_nonempty:
  "held ws \<noteq> [] \<Longrightarrow> \<exists>g wid ev. g < length ws \<and> ws ! g = (wid, Persisting ev)"
proof -
  assume "held ws \<noteq> []"
  then obtain x where x: "x \<in> set ws" and h: "holding (snd x) \<noteq> []"
    by (auto simp: held_def)
  from h obtain ev where "snd x = Persisting ev" by (cases "snd x") auto
  then have "x = (fst x, Persisting ev)" by (cases x) simp
  with x show ?thesis by (metis in_set_conv_nth)
qed

text \<open>While something is left to do, some worker can do it.\<close>

lemma pool_progress:
  assumes "pool_ok w" and "\<not> quiescent w"
  shows "\<exists>g. work (snd (clickWorker_step w g False)) < work w"
proof -
  from assms(1) have nd: "\<not> ctx_done w" and nf: "never_fails (env w)" and ne: "workers w \<noteq> []"
    and nr: "list_all (\<lambda>x. snd x \<noteq> Returned) (workers w)"
    by (simp_all add: pool_ok_def)
  have persist: "work (snd (clickWorker_step w g False)) < work w"
    if g: "g < length (workers w)" and p: "workers w ! g = (wid, Persisting ev)" for g wid ev
  proof -
    from CreateClick_quiet [OF never_fails_quiet [OF nf], of "click_of_event ev"]
    obtain row where "fst (GormClickRepository_CreateClick w (click_of_event ev)) = Inr row"
      by auto
    from step_persisted [OF g p this, of False] cost_update [OF g, of wid AtSelect] p
    show ?thesis by (simp add: work_def)
  qed
  show ?thesis
  proof (cases "held (workers w) = []")
    case False
    from held_nonempty [OF False] persist show ?thesis by blast
  next
    case True
    with assms(2) obtain ev rest where b: "ch_buf (ClickEventsChannel w) = ev # rest"
      by (cases "ch_buf (ClickEventsChannel w)") (auto simp: quiescent_def)
    from ne have g: "0 < length (workers w)" by simp
    obtain wid p where wp: "workers w ! 0 = (wid, p)" by (cases "workers w ! 0")
    from nr g wp have "p \<noteq> Returned"
      by (auto simp: list_all_length)
    then consider "p = Spawned" | "p = AtSelect" | ev' where "p = Persisting ev'"
      by (cases p) auto
    then have "work (snd (clickWorker_step w 0 False)) < work w"
    proof cases
      case 1
      from step_Spawned [OF g, of wid False] cost_update [OF g, of wid AtSelect] wp 1
      show ?thesis by (simp add: work_def)
    next
      case 2
      from step_received [OF g, of wid False ev rest] cost_update [OF g, of wid "Persisting ev"]
        wp 2 b nd
      show ?thesis by (simp add: work_def)
    next
      case 3
      with wp persist [OF g, of wid ev'] show ?thesis by simp
    qed
    then show ?thesis by blast
  qed
qed

lemma pool_drains:
  "pool_ok w \<Longrightarrow> \<exists>sched. quiescent (snd (run w sched))"
proof (induction "work w" arbitrary: w rule: less_induct)
  case less
  show ?case
  proof (cases "quiescent w")
    case True
    then have "quiescent (snd (run w []))" by simp
    then show ?thesis by blast
  next
    case False
    from pool_progress [OF less.prems False] obtain g where
      lt: "work (snd (clickWorker_step w g False)) < work w" by blast
    from less.hyps [OF lt pool_step(1) [OF less.prems]] obtain sched where
      "quiescent (snd (run (snd (clickWorker_step w g False)) sched))" by blast
    then have "quiescent (snd (run w ((g, False) # sched)))"
      by (simp add: split_beta)
    then show ?thesis by blast
  qed
qed

lemma held_Spawned: "held (map (\<lambda>i. (i, Spawned)) xs) = []"
  by (induction xs) (simp_all add: held_def)

lemma size_stored: "size (stored w) = length (clicks w)"
  by (simp add: stored_def)

lemma start_state:
  assumes "1 \<le> N" and "length es \<le> C" and "never_fails (env w)" and "\<not> ctx_done w"
  shows "pool_ok (StartClickWorkers
           (snd (tryEnqueue_all (w\<lparr>ClickEventsChannel := make_chan C, workers := []\<rparr>) es)) N)"
    and "pending (StartClickWorkers
           (snd (tryEnqueue_all (w\<lparr>ClickEventsChannel := make_chan C, workers := []\<rparr>) es)) N)
         = mset (map click_of_event es)"
    and "stored (StartClickWorkers
           (snd (tryEnqueue_all (w\<lparr>ClickEventsChannel := make_chan C, workers := []\<rparr>) es)) N)
         = stored w"
proof -
  let ?w0 = "w\<lparr>ClickEventsChannel := make_chan C, workers := []\<rparr>"
  have "\<not> ch_closed (ClickEventsChannel ?w0)" by (simp add: make_chan_def)
  from tryEnqueue_all_open [OF this, of es] assms(2)
  have q: "snd (tryEnqueue_all ?w0 es) =
             ?w0\<lparr>ClickEventsChannel := (make_chan C)\<lparr>ch_buf := es\<rparr>, logs := logs w\<rparr>"
    by (simp add: make_chan_def)
  from assms(1) have n: "[0..<nat N] \<noteq> []" by simp
  show "pool_ok (StartClickWorkers (snd (tryEnqueue_all ?w0 es)) N)"
    using assms(3,4) n unfolding q
    by (simp add: StartClickWorkers_def pool_ok_def make_chan_def list_all_iff)
  show "pending (StartClickWorkers (snd (tryEnqueue_all ?w0 es)) N) = mset (map click_of_event es)"
    unfolding q by (simp add: StartClickWorkers_def pending_def held_Spawned)
  show "stored (StartClickWorkers (snd (tryEnqueue_all ?w0 es)) N) = stored w"
    unfolding q by (simp add: StartClickWorkers_def stored_def)
qed

text \<open>
  Claim C7. Let \<open>M \<le> C\<close> events be sent into a fresh channel of capacity \<open>C\<close> before any
  worker runs, let \<open>N \<ge> 1\<close> workers be started, the context not be cancelled, and no
  statement fail. Then under every schedule the clicks in the table and the clicks still
  to be written are together the clicks already stored and one click per event; whenever
  the pool is quiescent the table holds exactly \<open>M\<close> more clicks, one per event; and every
  schedule can be continued to a quiescent pool. None of this depends on \<open>N\<close>.
\<close>

theorem workers_persist_every_enqueued_event:
  assumes "1 \<le> N" and "length es \<le> C" and "never_fails (env w)" and "\<not> ctx_done w"
  shows
    "stored (snd (run (StartClickWorkers
        (snd (tryEnqueue_all (w\<lparr>ClickEventsChannel := make_chan C, workers := []\<rparr>) es)) N)
        sched))
     + pending (snd (run (StartClickWorkers
        (snd (tryEnqueue_all (w\<lparr>ClickEventsChannel := make_chan C, workers := []\<rparr>) es)) N)
        sched))
     = stored w + mset (map click_of_event es)
   \<and> (quiescent (snd (run (StartClickWorkers
        (snd (tryEnqueue_all (w\<lparr>ClickEventsChannel := make_chan C, workers := []\<rparr>) es)) N)
        sched)) \<longrightarrow>
        stored (snd (run (StartClickWorkers
          (snd (tryEnqueue_all (w\<lparr>ClickEventsChannel := make_chan C, workers := []\<rparr>) es)) N)
          sched))
        = stored w + mset (map click_of_event es)
        \<and> length (clicks (snd (run (StartClickWorkers
          (snd (tryEnqueue_all (w\<lparr>ClickEventsChannel := make_chan C, workers := []\<rparr>) es)) N)
          sched)))
          = length (clicks w) + length es)
   \<and> (\<exists>more. quiescent (snd (run (StartClickWorkers
        (snd (tryEnqueue_all (w\<lparr>ClickEventsChannel := make_chan C, workers := []\<rparr>) es)) N)
        (sched @ more))))"
proof -
  let ?start = "StartClickWorkers
        (snd (tryEnqueue_all (w\<lparr>ClickEventsChannel := make_chan C, workers := []\<rparr>) es)) N"
  let ?final = "snd (run ?start sched)"
  note s = start_state [OF assms]
  from pool_run [OF s(1), of sched] s(2,3)
  have ok: "pool_ok ?final"
    and inv: "stored ?final + pending ?final = stored w + mset (map click_of_event es)"
    by simp_all
  have fin: "stored ?final = stored w + mset (map click_of_event es)
      \<and> length (clicks ?final) = length (clicks w) + length es"
    if "quiescent ?final"
  proof -
    from inv quiescent_pending [OF that]
    have e: "stored ?final = stored w + mset (map click_of_event es)" by simp
    then have "size (stored ?final) = size (stored w + mset (map click_of_event es))" by simp
    then have "length (clicks ?final) = length (clicks w) + length es"
      by (simp add: size_stored)
    with e show ?thesis by simp
  qed
  from pool_drains [OF ok] obtain more where "quiescent (snd (run ?final more))" by blast
  then have "\<exists>more. quiescent (snd (run ?start (sched @ more)))"
    by (auto simp: run_append)
  with inv fin show ?thesis by blast
qed

lemma two_workers_drain:
  "quiescent (snd (run (StartClickWorkers
        (snd (tryEnqueue_all (quiet_world\<lparr>ClickEventsChannel := make_chan 2, workers := []\<rparr>)
               [event_A, event_B])) 2)
        [(0, False), (1, False), (0, False), (1, False), (0, False), (1, False)]))"
  by code_simp

lemma two_workers_clicks:
  "clicks (snd (run (StartClickWorkers
        (snd (tryEnqueue_all (quiet_world\<lparr>ClickEventsChannel := make_chan 2, workers := []\<rparr>)
               [event_A, event_B])) 2)
        [(0, False), (1, False), (0, False), (1, False), (0, False), (1, False)])) =
   [\<lparr>Click_ID = 1, LinkID = 1, Timestamp = 10, UserAgent = ''curl'', IPAddress = ''10.0.0.1''\<rparr>,
    \<lparr>Click_ID = 2, LinkID = 2, Timestamp = 11, UserAgent = ''wget'', IPAddress = ''10.0.0.2''\<rparr>]"
  by code_simp

text \<open>
  An instance: two workers, capacity 2, the events \<open>event_A\<close> and \<open>event_B\<close>, and a
  schedule in which the workers alternate.
\<close>

theorem workers_persist_every_enqueued_event_witness:
  "quiescent (snd (run (StartClickWorkers
        (snd (tryEnqueue_all (quiet_world\<lparr>ClickEventsChannel := make_chan 2, workers := []\<rparr>)
               [event_A, event_B])) 2)
        [(0, False), (1, False), (0, False), (1, False), (0, False), (1, False)]))
   \<and> stored (snd (run (StartClickWorkers
        (snd (tryEnqueue_all (quiet_world\<lparr>ClickEventsChannel := make_chan 2, workers := []\<rparr>)
               [event_A, event_B])) 2)
        [(0, False), (1, False), (0, False), (1, False), (0, False), (1, False)]))
     = {#click_of_event event_A, click_of_event event_B#}
   \<and> length (clicks (snd (run (StartClickWorkers
        (snd (tryEnqueue_all (quiet_world\<lparr>ClickEventsChannel := make_chan 2, workers := []\<rparr>)
               [event_A, event_B])) 2)
        [(0, False), (1, False), (0, False), (1, False), (0, False), (1, False)]))) = 2
   \<and> clicks (snd (run (StartClickWorkers
        (snd (tryEnqueue_all (quiet_world\<lparr>ClickEventsChannel := make_chan 2, workers := []\<rparr>)
               [event_A, event_B])) 2)
        [(0, False), (1, False), (0, False), (1, False), (0, False), (1, False)])) =
     [\<lparr>Click_ID = 1, LinkID = 1, Timestamp = 10, UserAgent = ''curl'', IPAddress = ''10.0.0.1''\<rparr>,
      \<lparr>Click_ID = 2, LinkID = 2, Timestamp = 11, UserAgent = ''wget'',
        IPAddress = ''10.0.0.2''\<rparr>]"
proof -
  have n: "(1::int) \<le> 2" by simp
  have l: "length [event_A, event_B] \<le> 2" by simp
  have f: "never_fails (env quiet_world)" by (simp add: never_fails_def quiet_world_def)
  have c: "\<not> ctx_done quiet_world" by (simp add: quiet_world_def)
  have s: "stored quiet_world = {#}" by (simp add: stored_def quiet_world_def)
  have z: "length (clicks quiet_world) = 0" by (simp add: quiet_world_def)
  from workers_persist_every_enqueued_event [OF n l f c,
      of "[(0, False), (1, False), (0, False), (1, False), (0, False), (1, False)]"]
    two_workers_drain s z two_workers_clicks
  show ?thesis by (simp add: ac_simps)
qed

end
